theory Spec2Isabelle
  imports Complex_Main
begin

section \<open>The browser-side store (localStorageService)\<close>

text \<open>
  The web dashboard keeps its data in the browser's \<^verbatim>\<open>localStorage\<close>, one JSON document
  per key. The TypeScript signatures fix the shape of the document held under each
  family of keys (\<^verbatim>\<open>Transaction[]\<close>, \<^verbatim>\<open>Category[]\<close>, the auth session), so the
  model keeps every document in parsed form, in one slot per family, indexed by the
  full key string that \<^verbatim>\<open>getUserKey\<close> builds. Everything else in the storage (profiles,
  PINs, the onboarding flag) is kept as raw text in \<open>other_items\<close>; none of the
  operations below reads or writes it. \<^verbatim>\<open>setItem\<close> is taken to succeed: a storage that
  is full is outside the model.

  Record fields carry a prefix (\<open>t_\<close>, \<open>c_\<close>, \<open>u_\<close>, \<open>s_\<close>) because the interfaces
  share field names and \<open>id\<close> is a constant of HOL.
\<close>

datatype txn_type = debit | credit

record Transaction =
  t_id :: string
  t_description :: string
  t_amount :: rat
  t_category :: string
  t_date :: string
  t_recipient :: "string option"
  t_type :: "txn_type option"

text \<open>
  \<^verbatim>\<open>Partial<Transaction>\<close>: \<open>None\<close> is a key that the update does not carry. The two
  optional fields may also be carried with the value \<^verbatim>\<open>undefined\<close> (\<open>Some None\<close>), which
  clears them. A required field carried as \<^verbatim>\<open>undefined\<close> would leave an object that is
  no \<^verbatim>\<open>Transaction\<close>; such updates are outside the model.
\<close>

record TransactionUpdates =
  u_id :: "string option"
  u_description :: "string option"
  u_amount :: "rat option"
  u_category :: "string option"
  u_date :: "string option"
  u_recipient :: "string option option"
  u_type :: "txn_type option option"

record Category =
  c_name :: string
  c_createdAt :: string

record AuthSession =
  s_phone :: string
  s_timestamp :: string

record LocalStorage =
  transactions :: "string \<rightharpoonup> Transaction list"
  categories :: "string \<rightharpoonup> Category list"
  auth_session :: "AuthSession option"
  other_items :: "string \<rightharpoonup> string"

text \<open>
  Every service function starts with \<^verbatim>\<open>if (typeof window === 'undefined') return\<close>. The
  world a function runs in is therefore \<open>None\<close> (server-side rendering, no storage) or
  \<open>Some ls\<close> (a browser with storage \<open>ls\<close>).
\<close>

type_synonym world = "LocalStorage option"

definition TRANSACTIONS :: string where
  "TRANSACTIONS = ''transactai_transactions''"

definition CATEGORIES :: string where
  "CATEGORIES = ''transactai_categories''"

text \<open>\<^verbatim>\<open>phone.replace(/\+/g, '')\<close>\<close>

definition strip_plus :: "string \<Rightarrow> string" where
  "strip_plus s = filter (\<lambda>c. c \<noteq> CHR ''+'') s"

text \<open>
  \<^verbatim>\<open>getUserKey(baseKey, userId)\<close>. An absent and an empty \<^verbatim>\<open>userId\<close> are both falsy. Without
  a usable \<^verbatim>\<open>userId\<close> the key is derived from the stored session (\<open>sessionKey\<close>), whose
  phone number falls back to \<^verbatim>\<open>'default'\<close> when nothing is left of it; on the server, or
  without a session, the key is the base key itself.
\<close>

definition sessionKey :: "string \<Rightarrow> world \<Rightarrow> string" where
  "sessionKey baseKey w =
     (case w of
        None \<Rightarrow> baseKey
      | Some ls \<Rightarrow>
          (case auth_session ls of
             None \<Rightarrow> baseKey
           | Some s \<Rightarrow>
               (let phone = (if strip_plus (s_phone s) = [] then ''default''
                             else strip_plus (s_phone s))
                in baseKey @ ''_'' @ phone)))"

definition getUserKey :: "string \<Rightarrow> string option \<Rightarrow> world \<Rightarrow> string" where
  "getUserKey baseKey userId w =
     (case userId of
        None \<Rightarrow> sessionKey baseKey w
      | Some u \<Rightarrow> if u = [] then sessionKey baseKey w else baseKey @ ''_'' @ u)"

subsection \<open>transactionService\<close>

definition txn_getAll :: "string option \<Rightarrow> world \<Rightarrow> Transaction list" where
  "txn_getAll userId w =
     (case w of
        None \<Rightarrow> []
      | Some ls \<Rightarrow>
          (case transactions ls (getUserKey TRANSACTIONS userId w) of
             None \<Rightarrow> []
           | Some ts \<Rightarrow> ts))"

text \<open>\<^verbatim>\<open>transactions.findIndex(t => t.id === id)\<close>: the first index, or \<open>-1\<close>.\<close>

fun findIndex :: "('a \<Rightarrow> bool) \<Rightarrow> 'a list \<Rightarrow> int" where
  "findIndex p [] = -1"
| "findIndex p (x # xs) =
     (if p x then 0
      else (let i = findIndex p xs in if i = -1 then -1 else i + 1))"

text \<open>The object spread \<^verbatim>\<open>{ ...t, ...updates }\<close>: a key of \<open>updates\<close> wins.\<close>

definition spread :: "Transaction \<Rightarrow> TransactionUpdates \<Rightarrow> Transaction" where
  "spread t u =
     \<lparr> t_id = (case u_id u of None \<Rightarrow> t_id t | Some v \<Rightarrow> v),
       t_description = (case u_description u of None \<Rightarrow> t_description t | Some v \<Rightarrow> v),
       t_amount = (case u_amount u of None \<Rightarrow> t_amount t | Some v \<Rightarrow> v),
       t_category = (case u_category u of None \<Rightarrow> t_category t | Some v \<Rightarrow> v),
       t_date = (case u_date u of None \<Rightarrow> t_date t | Some v \<Rightarrow> v),
       t_recipient = (case u_recipient u of None \<Rightarrow> t_recipient t | Some v \<Rightarrow> v),
       t_type = (case u_type u of None \<Rightarrow> t_type t | Some v \<Rightarrow> v) \<rparr>"

definition txn_update :: "string \<Rightarrow> TransactionUpdates \<Rightarrow> string option \<Rightarrow> world \<Rightarrow> world" where
  "txn_update ident updates userId w =
     (case w of
        None \<Rightarrow> None
      | Some ls \<Rightarrow>
          (let txs = txn_getAll userId w;
               index = findIndex (\<lambda>t. t_id t = ident) txs
           in if index \<noteq> -1
              then Some (ls\<lparr>transactions :=
                     (transactions ls)(getUserKey TRANSACTIONS userId w \<mapsto>
                        txs[nat index := spread (txs ! nat index) updates])\<rparr>)
              else w))"

definition txn_save :: "Transaction \<Rightarrow> string option \<Rightarrow> world \<Rightarrow> world" where
  "txn_save transaction userId w =
     (case w of
        None \<Rightarrow> None
      | Some ls \<Rightarrow>
          Some (ls\<lparr>transactions :=
            (transactions ls)(getUserKey TRANSACTIONS userId w \<mapsto>
               txn_getAll userId w @ [transaction])\<rparr>))"

definition txn_saveMany :: "Transaction list \<Rightarrow> string option \<Rightarrow> world \<Rightarrow> world" where
  "txn_saveMany txs userId w =
     (case w of
        None \<Rightarrow> None
      | Some ls \<Rightarrow>
          Some (ls\<lparr>transactions :=
            (transactions ls)(getUserKey TRANSACTIONS userId w \<mapsto> txs)\<rparr>))"

definition txn_delete :: "string \<Rightarrow> string option \<Rightarrow> world \<Rightarrow> world" where
  "txn_delete ident userId w =
     (case w of
        None \<Rightarrow> None
      | Some ls \<Rightarrow>
          Some (ls\<lparr>transactions :=
            (transactions ls)(getUserKey TRANSACTIONS userId w \<mapsto>
               filter (\<lambda>t. t_id t \<noteq> ident) (txn_getAll userId w))\<rparr>))"

subsection \<open>categoryService\<close>

text \<open>
  \<^verbatim>\<open>String.prototype.toLowerCase\<close> belongs to the JavaScript runtime, not to the
  repository. The category functions take it as the parameter \<open>toLowerCase\<close>, so what is
  proved about them holds for the runtime's Unicode lowercasing as for any other
  function on strings. \<open>ascii_toLowerCase\<close> is the instance used to run examples.
  The timestamp \<^verbatim>\<open>new Date().toISOString()\<close> is the parameter \<open>now\<close>.
\<close>

definition ascii_lower :: "char \<Rightarrow> char" where
  "ascii_lower c =
     (if 65 \<le> (of_char c :: nat) \<and> (of_char c :: nat) \<le> 90
      then char_of (of_char c + (32 :: nat)) else c)"

definition ascii_toLowerCase :: "string \<Rightarrow> string" where
  "ascii_toLowerCase s = map ascii_lower s"

definition cat_getAll :: "string option \<Rightarrow> world \<Rightarrow> Category list" where
  "cat_getAll userId w =
     (case w of
        None \<Rightarrow> []
      | Some ls \<Rightarrow>
          (case categories ls (getUserKey CATEGORIES userId w) of
             None \<Rightarrow> []
           | Some cs \<Rightarrow> cs))"

definition cat_add ::
  "(string \<Rightarrow> string) \<Rightarrow> string \<Rightarrow> string option \<Rightarrow> string \<Rightarrow> world \<Rightarrow> world" where
  "cat_add toLowerCase categoryName userId now w =
     (case w of
        None \<Rightarrow> None
      | Some ls \<Rightarrow>
          (let cats = cat_getAll userId w
           in if find (\<lambda>c. toLowerCase (c_name c) = toLowerCase categoryName) cats = None
              then Some (ls\<lparr>categories :=
                     (categories ls)(getUserKey CATEGORIES userId w \<mapsto>
                        cats @ [\<lparr> c_name = categoryName, c_createdAt = now \<rparr>])\<rparr>)
              else w))"

definition cat_remove :: "string \<Rightarrow> string option \<Rightarrow> world \<Rightarrow> world" where
  "cat_remove categoryName userId w =
     (case w of
        None \<Rightarrow> None
      | Some ls \<Rightarrow>
          Some (ls\<lparr>categories :=
            (categories ls)(getUserKey CATEGORIES userId w \<mapsto>
               filter (\<lambda>c. c_name c \<noteq> categoryName) (cat_getAll userId w))\<rparr>))"

definition cat_getNames :: "string option \<Rightarrow> world \<Rightarrow> string list" where
  "cat_getNames userId w = map c_name (cat_getAll userId w)"

subsection \<open>authService\<close>

definition saveSession :: "string \<Rightarrow> string \<Rightarrow> world \<Rightarrow> world" where
  "saveSession phone now w =
     (case w of
        None \<Rightarrow> None
      | Some ls \<Rightarrow> Some (ls\<lparr>auth_session := Some \<lparr> s_phone = phone, s_timestamp = now \<rparr>\<rparr>))"

text \<open>
  \<^verbatim>\<open>clearSession\<close> also drops an unlock flag from \<^verbatim>\<open>sessionStorage\<close>, which is a different
  storage area and is not part of the model.
\<close>

definition clearSession :: "world \<Rightarrow> world" where
  "clearSession w =
     (case w of
        None \<Rightarrow> None
      | Some ls \<Rightarrow> Some (ls\<lparr>auth_session := None\<rparr>))"

subsection \<open>Histories of service calls\<close>

text \<open>
  The calls that can write a transaction list, a category list or the session, as one
  datatype, and the effect of a sequence of them on the world.
\<close>

datatype call =
    TxnSave Transaction "string option"
  | TxnSaveMany "Transaction list" "string option"
  | TxnUpdate string TransactionUpdates "string option"
  | TxnDelete string "string option"
  | CatAdd string "string option" string
  | CatRemove string "string option"
  | SaveSession string string
  | ClearSession

fun perform :: "(string \<Rightarrow> string) \<Rightarrow> call \<Rightarrow> world \<Rightarrow> world" where
  "perform lc (TxnSave t u) w = txn_save t u w"
| "perform lc (TxnSaveMany ts u) w = txn_saveMany ts u w"
| "perform lc (TxnUpdate i upd u) w = txn_update i upd u w"
| "perform lc (TxnDelete i u) w = txn_delete i u w"
| "perform lc (CatAdd n u now) w = cat_add lc n u now w"
| "perform lc (CatRemove n u) w = cat_remove n u w"
| "perform lc (SaveSession phone now) w = saveSession phone now w"
| "perform lc ClearSession w = clearSession w"

fun perform_all :: "(string \<Rightarrow> string) \<Rightarrow> call list \<Rightarrow> world \<Rightarrow> world" where
  "perform_all lc [] w = w"
| "perform_all lc (c # cs) w = perform_all lc cs (perform lc c w)"

text \<open>A browser whose storage holds nothing yet.\<close>

definition empty_storage :: LocalStorage where
  "empty_storage =
     \<lparr> transactions = Map.empty, categories = Map.empty,
       auth_session = None, other_items = Map.empty \<rparr>"

text \<open>
  The invariant of the category lists: under every key, no two stored categories have
  names that are equal once lowercased.
\<close>

definition ci_distinct :: "(string \<Rightarrow> string) \<Rightarrow> Category list \<Rightarrow> bool" where
  "ci_distinct toLowerCase cs = distinct (map (\<lambda>c. toLowerCase (c_name c)) cs)"

definition categories_ok :: "(string \<Rightarrow> string) \<Rightarrow> world \<Rightarrow> bool" where
  "categories_ok toLowerCase w =
     (case w of
        None \<Rightarrow> True
      | Some ls \<Rightarrow> (\<forall>cs \<in> ran (categories ls). ci_distinct toLowerCase cs))"

section \<open>The Android notification filter (NotificationService)\<close>

text \<open>
  A Kotlin \<^verbatim>\<open>Char\<close> is a UTF-16 code unit; it is modelled by its number, a \<^verbatim>\<open>String\<close> by the
  list of its code units. \<open>str\<close> embeds an ASCII literal, and the rupee sign is the single
  code unit U+20B9.
\<close>

type_synonym kchar = nat
type_synonym kstring = "kchar list"

definition str :: "string \<Rightarrow> kstring" where
  "str s = map of_char s"

definition rupee :: kstring where
  "rupee = [8377]"

text \<open>
  What the filter takes from the platform and not from the repository: the case
  mappings of \<^verbatim>\<open>Char\<close>, and the character classes and case-insensitive comparison of the
  regular-expression engine. The JVM and Android fill them in differently (ASCII or
  Unicode digits, for instance), so they are parameters, and the results below hold
  for each of them. \<open>regex_ci_eq P p c\<close> says that the pattern character \<open>p\<close> matches
  the input character \<open>c\<close> under \<^verbatim>\<open>IGNORE_CASE\<close>.
\<close>

record platform =
  uppercaseChar :: "kchar \<Rightarrow> kchar"
  lowercaseChar :: "kchar \<Rightarrow> kchar"
  regex_digit :: "kchar \<Rightarrow> bool"
  regex_space :: "kchar \<Rightarrow> bool"
  regex_ci_eq :: "kchar \<Rightarrow> kchar \<Rightarrow> bool"

subsection \<open>\<^verbatim>\<open>contains(other, ignoreCase = true)\<close>\<close>

text \<open>
  The comparison of two characters when case is ignored: equal, or equal in upper
  case, or equal once the upper-case forms are lowered again.
\<close>

definition equals_ic :: "platform \<Rightarrow> kchar \<Rightarrow> kchar \<Rightarrow> bool" where
  "equals_ic P a b =
     (a = b \<or> uppercaseChar P a = uppercaseChar P b \<or>
      lowercaseChar P (uppercaseChar P a) = lowercaseChar P (uppercaseChar P b))"

text \<open>\<open>regionMatches P other this\<close>: \<open>other\<close> is found at the start of \<open>this\<close>.\<close>

fun regionMatches :: "platform \<Rightarrow> kstring \<Rightarrow> kstring \<Rightarrow> bool" where
  "regionMatches P [] this = True"
| "regionMatches P (k # ks) [] = False"
| "regionMatches P (k # ks) (c # cs) = (equals_ic P c k \<and> regionMatches P ks cs)"

text \<open>The search tries every start index, from the first to the end of the string.\<close>

fun contains_ic :: "platform \<Rightarrow> kstring \<Rightarrow> kstring \<Rightarrow> bool" where
  "contains_ic P [] other = regionMatches P other []"
| "contains_ic P (c # cs) other = (regionMatches P other (c # cs) \<or> contains_ic P cs other)"

subsection \<open>Regular expressions\<close>

text \<open>
  The fragment of the pattern language that the filter uses, compiled with
  \<^verbatim>\<open>IGNORE_CASE\<close>: literal characters, \<^verbatim>\<open>\d\<close>, \<^verbatim>\<open>\s\<close>, alternation, sequence, \<^verbatim>\<open>?\<close>, \<^verbatim>\<open>*\<close>
  and \<^verbatim>\<open>+\<close>. \<open>Nul\<close> (matches nothing) and \<open>Epsilon\<close> (matches the empty string) only arise
  while matching.
\<close>

datatype rx =
    Nul
  | Epsilon
  | Chr kchar
  | Digit
  | Space
  | Alt rx rx
  | Seq rx rx
  | Opt rx
  | Star rx
  | Plus rx

fun nullable :: "rx \<Rightarrow> bool" where
  "nullable Nul = False"
| "nullable Epsilon = True"
| "nullable (Chr k) = False"
| "nullable Digit = False"
| "nullable Space = False"
| "nullable (Alt a b) = (nullable a \<or> nullable b)"
| "nullable (Seq a b) = (nullable a \<and> nullable b)"
| "nullable (Opt a) = True"
| "nullable (Star a) = True"
| "nullable (Plus a) = nullable a"

text \<open>\<open>deriv P c r\<close> matches what \<open>r\<close> matches after the character \<open>c\<close> has been read.\<close>

fun deriv :: "platform \<Rightarrow> kchar \<Rightarrow> rx \<Rightarrow> rx" where
  "deriv P c Nul = Nul"
| "deriv P c Epsilon = Nul"
| "deriv P c (Chr k) = (if regex_ci_eq P k c then Epsilon else Nul)"
| "deriv P c Digit = (if regex_digit P c then Epsilon else Nul)"
| "deriv P c Space = (if regex_space P c then Epsilon else Nul)"
| "deriv P c (Alt a b) = Alt (deriv P c a) (deriv P c b)"
| "deriv P c (Seq a b) =
     (if nullable a then Alt (Seq (deriv P c a) b) (deriv P c b)
      else Seq (deriv P c a) b)"
| "deriv P c (Opt a) = deriv P c a"
| "deriv P c (Star a) = Seq (deriv P c a) (Star a)"
| "deriv P c (Plus a) = Seq (deriv P c a) (Star a)"

text \<open>\<open>lookingAt\<close>: some prefix of the input matches the pattern.\<close>

fun lookingAt :: "platform \<Rightarrow> rx \<Rightarrow> kstring \<Rightarrow> bool" where
  "lookingAt P r [] = nullable r"
| "lookingAt P r (c # cs) = (nullable r \<or> lookingAt P (deriv P c r) cs)"

text \<open>\<^verbatim>\<open>text.contains(regex)\<close>: a match starts at some index of the input.\<close>

fun containsMatchIn :: "platform \<Rightarrow> rx \<Rightarrow> kstring \<Rightarrow> bool" where
  "containsMatchIn P r [] = nullable r"
| "containsMatchIn P r (c # cs) = (lookingAt P r (c # cs) \<or> containsMatchIn P r cs)"

text \<open>A literal string as a pattern.\<close>

fun lit :: "kstring \<Rightarrow> rx" where
  "lit [] = Epsilon"
| "lit [k] = Chr k"
| "lit (k # ks) = Seq (Chr k) (lit ks)"

subsection \<open>The filter\<close>

definition transactionKeywords :: "kstring list" where
  "transactionKeywords =
     [str ''paid'', str ''received'', str ''sent'', str ''transfer'', str ''upi'',
      str ''transaction'', str ''debited'', str ''credited'', str ''payment'',
      str ''purchase'', str ''order'', str ''rs.'', rupee, str ''inr'', str ''amount'',
      str ''bank'', str ''account'']"

definition paymentPackages :: "kstring list" where
  "paymentPackages =
     [str ''com.whatsapp'', str ''com.phonepe.app'',
      str ''com.google.android.apps.nbu.paisa.user'', str ''in.org.npci.upiapp'',
      str ''com.paytm'', str ''com.amazon.in'']"

text \<open>
  The pattern \<^verbatim>\<open>(R|rs\.?|inr)\s*\d+\<close>, where \<^verbatim>\<open>R\<close> stands for the rupee sign U+20B9;
  46 is the full stop.
\<close>

definition amountPattern :: rx where
  "amountPattern =
     Seq (Alt (lit rupee) (Alt (Seq (lit (str ''rs'')) (Opt (Chr 46))) (lit (str ''inr''))))
         (Seq (Star Space) (Plus Digit))"

definition isTransactionNotification :: "platform \<Rightarrow> kstring \<Rightarrow> kstring \<Rightarrow> bool" where
  "isTransactionNotification P packageName text =
     (let isPaymentApp =
            (contains_ic P packageName (str ''payment'') \<or>
             contains_ic P packageName (str ''bank'') \<or>
             contains_ic P packageName (str ''upi'') \<or>
             contains_ic P packageName (str ''wallet'') \<or>
             contains_ic P packageName (str ''pay'') \<or>
             packageName \<in> set paymentPackages);
          hasTransactionKeywords =
            list_ex (\<lambda>keyword. contains_ic P text keyword) transactionKeywords;
          hasAmountPattern = containsMatchIn P amountPattern text;
          isTransaction = ((isPaymentApp \<and> hasTransactionKeywords) \<or> hasAmountPattern)
      in isTransaction)"

text \<open>
  A platform to run examples on: ASCII case mappings, \<^verbatim>\<open>\d\<close> the ten ASCII digits,
  \<^verbatim>\<open>\s\<close> the six ASCII white-space characters.
\<close>

definition ascii_upper_k :: "kchar \<Rightarrow> kchar" where
  "ascii_upper_k c = (if 97 \<le> c \<and> c \<le> 122 then c - 32 else c)"

definition ascii_lower_k :: "kchar \<Rightarrow> kchar" where
  "ascii_lower_k c = (if 65 \<le> c \<and> c \<le> 90 then c + 32 else c)"

definition ascii_platform :: platform where
  "ascii_platform =
     \<lparr> uppercaseChar = ascii_upper_k,
       lowercaseChar = ascii_lower_k,
       regex_digit = (\<lambda>c. 48 \<le> c \<and> c \<le> 57),
       regex_space = (\<lambda>c. c \<in> set [32, 9, 10, 11, 12, 13]),
       regex_ci_eq = (\<lambda>p c. ascii_lower_k p = ascii_lower_k c) \<rparr>"

subsection \<open>What the filter is meant to accept\<close>

text \<open>
  The same conditions, stated on the text itself rather than by a search: \<open>kw\<close> occurs
  in \<open>text\<close> when \<open>text\<close> splits into a part before, a part that equals \<open>kw\<close> character
  by character up to case, and a part after.
\<close>

definition occurs_ic :: "platform \<Rightarrow> kstring \<Rightarrow> kstring \<Rightarrow> bool" where
  "occurs_ic P kw text =
     (\<exists>pre mid post. text = pre @ mid @ post \<and> list_all2 (equals_ic P) mid kw)"

definition payment_app :: "platform \<Rightarrow> kstring \<Rightarrow> bool" where
  "payment_app P packageName =
     ((\<exists>w \<in> {str ''payment'', str ''bank'', str ''upi'', str ''wallet'', str ''pay''}.
          occurs_ic P w packageName) \<or>
      packageName \<in> {str ''com.whatsapp'', str ''com.phonepe.app'',
          str ''com.google.android.apps.nbu.paisa.user'', str ''in.org.npci.upiapp'',
          str ''com.paytm'', str ''com.amazon.in''})"

definition has_keyword :: "platform \<Rightarrow> kstring \<Rightarrow> bool" where
  "has_keyword P text = (\<exists>kw \<in> set transactionKeywords. occurs_ic P kw text)"

text \<open>
  A currency amount: one of the markers rupee sign, \<^verbatim>\<open>rs\<close>, \<^verbatim>\<open>rs.\<close>, \<^verbatim>\<open>inr\<close> in any case, then
  any number of white-space characters, then at least one digit.
\<close>

definition currency_marker :: "platform \<Rightarrow> kstring \<Rightarrow> bool" where
  "currency_marker P m =
     (\<exists>w \<in> {rupee, str ''rs'', str ''rs.'', str ''inr''}. list_all2 (regex_ci_eq P) w m)"

definition has_amount :: "platform \<Rightarrow> kstring \<Rightarrow> bool" where
  "has_amount P text =
     (\<exists>pre m ws ds post.
        text = pre @ m @ ws @ ds @ post \<and> currency_marker P m \<and>
        (\<forall>c \<in> set ws. regex_space P c) \<and> ds \<noteq> [] \<and> (\<forall>c \<in> set ds. regex_digit P c))"

text \<open>The language of a pattern: the strings it matches as a whole.\<close>

definition conc :: "kstring set \<Rightarrow> kstring set \<Rightarrow> kstring set" where
  "conc A B = {u @ v |u v. u \<in> A \<and> v \<in> B}"

definition star :: "kstring set \<Rightarrow> kstring set" where
  "star A = {concat ws |ws. set ws \<subseteq> A}"

fun lang :: "platform \<Rightarrow> rx \<Rightarrow> kstring set" where
  "lang P Nul = {}"
| "lang P Epsilon = {[]}"
| "lang P (Chr k) = {[c] |c. regex_ci_eq P k c}"
| "lang P Digit = {[c] |c. regex_digit P c}"
| "lang P Space = {[c] |c. regex_space P c}"
| "lang P (Alt a b) = lang P a \<union> lang P b"
| "lang P (Seq a b) = conc (lang P a) (lang P b)"
| "lang P (Opt a) = insert [] (lang P a)"
| "lang P (Star a) = star (lang P a)"
| "lang P (Plus a) = conc (lang P a) (star (lang P a))"

section \<open>The categorization core\<close>

text \<open>
  The Python core (\<^verbatim>\<open>core/preprocessor.py\<close>, \<^verbatim>\<open>core/rules.py\<close>, \<^verbatim>\<open>core/model.py\<close>) is named by
  the README files but is not among the sources. Its components are modelled from the
  specification, each definition saying which part of the specification it follows and
  what it leaves open. What the specification leaves open (tables, the trained models,
  the rescue threshold, the margin and the blend) is a parameter.
\<close>

type_synonym RawText = string
type_synonym CleanText = string
type_synonym CategoryLabel = string

text \<open>
  Modelled from the spec: "the reserved fallback label Others" (section 3).
\<close>

definition Others :: CategoryLabel where
  "Others = ''Others''"

subsection \<open>Normalizer\<close>

text \<open>
  Modelled from the spec: the tables of the Normalizer (section 4.1), none of which the
  specification lists: the currency markers, the placeholder tokens for amounts and
  for entities, the number of digits from which a digit sequence counts as long, the
  substitution table of spelling variants, and the app-name prefixes.
\<close>

record NormalizerTables =
  currency_markers :: "string list"
  amount_token :: string
  entity_token :: string
  long_digits :: nat
  variants :: "(string \<times> string) list"
  app_prefixes :: "string list"

text \<open>
  Modelled from the spec: the characters that section 4.1 calls whitespace and digits, taken
  to be the six ASCII white-space characters and the ten ASCII digits.
\<close>

definition is_space :: "char \<Rightarrow> bool" where
  "is_space c = (c \<in> set [CHR '' '', CHR 0x09, CHR 0x0A, CHR 0x0B, CHR 0x0C, CHR 0x0D])"

definition is_digit :: "char \<Rightarrow> bool" where
  "is_digit c = (48 \<le> (of_char c :: nat) \<and> (of_char c :: nat) \<le> 57)"

text \<open>
  Modelled from the spec: "collapse whitespace" (section 4.1). The text is cut into its
  maximal runs of non-space characters, and the runs are joined again by single
  spaces.
\<close>

fun words_from :: "string \<Rightarrow> string \<Rightarrow> string list" where
  "words_from cur [] = (if cur = [] then [] else [cur])"
| "words_from cur (c # cs) =
     (if is_space c then (if cur = [] then words_from [] cs else cur # words_from [] cs)
      else words_from (cur @ [c]) cs)"

definition tokens :: "string \<Rightarrow> string list" where
  "tokens s = words_from [] s"

fun unwords :: "string list \<Rightarrow> string" where
  "unwords [] = []"
| "unwords [w] = w"
| "unwords (w # ws) = w @ '' '' @ unwords ws"

text \<open>
  Modelled from the spec: "numeric amount-like token (sequences of digits optionally
  preceded by currency markers)" (section 4.1).
\<close>

definition all_digits :: "string \<Rightarrow> bool" where
  "all_digits t = (t \<noteq> [] \<and> list_all is_digit t)"

definition amount_like :: "NormalizerTables \<Rightarrow> string \<Rightarrow> bool" where
  "amount_like T t =
     list_ex (\<lambda>m. take (length m) t = m \<and> all_digits (drop (length m) t))
       ([] # currency_markers T)"

text \<open>
  Modelled from the spec: "phone-number-shaped and long digit-sequences" (section 4.1):
  digits only, after an optional plus sign, and at least \<open>long_digits\<close> of them.
\<close>

definition entity_like :: "NormalizerTables \<Rightarrow> string \<Rightarrow> bool" where
  "entity_like T t =
     (let ds = (case t of [] \<Rightarrow> [] | c # cs \<Rightarrow> if c = CHR ''+'' then cs else t)
      in all_digits ds \<and> long_digits T \<le> length ds)"

text \<open>
  Modelled from the spec: the two replacements by placeholders (section 4.1). A long
  digit sequence is also a sequence of digits; it is taken as an entity, since the
  entity replacement would otherwise never see one.
\<close>

definition mask_token :: "NormalizerTables \<Rightarrow> string \<Rightarrow> string" where
  "mask_token T t =
     (if entity_like T t then entity_token T
      else if amount_like T t then amount_token T
      else t)"

text \<open>
  Modelled from the spec: "normalize common informal spelling variants of domain terms
  (a fixed substitution table) to their canonical form" (section 4.1).
\<close>

definition canonical :: "NormalizerTables \<Rightarrow> string \<Rightarrow> string" where
  "canonical T t = (case map_of (variants T) t of None \<Rightarrow> t | Some c \<Rightarrow> c)"

text \<open>
  Modelled from the spec: "strip notification boilerplate (app name prefixes) when
  recognizable" (section 4.1): leading tokens that are app-name prefixes are dropped.
\<close>

definition strip_boilerplate :: "NormalizerTables \<Rightarrow> string list \<Rightarrow> string list" where
  "strip_boilerplate T ts = dropWhile (\<lambda>t. t \<in> set (app_prefixes T)) ts"

text \<open>
  Modelled from the spec: \<^verbatim>\<open>normalize(raw: RawText) -> CleanText\<close> (section 4.1), the
  responsibilities in the order in which the specification lists them. It is written
  \<open>normalize_text\<close>, and the masking \<open>mask_token\<close>, since HOL has constants of the shorter
  names.
\<close>

definition normalize_text :: "NormalizerTables \<Rightarrow> RawText \<Rightarrow> CleanText" where
  "normalize_text T raw =
     unwords (strip_boilerplate T
       (map (\<lambda>t. canonical T (mask_token T t)) (tokens (ascii_toLowerCase raw))))"

subsection \<open>Rule Engine\<close>

text \<open>
  Modelled from the spec: a rule is "a (predicate over raw/clean text, target label,
  base confidence)" (section 4.2), and a \<^verbatim>\<open>RuleVerdict\<close> is "label, confidence in [0,1],
  matched_pattern: identifier or none" (section 3). The identifier of a rule is its
  position in the rule list.
\<close>

record Rule =
  predicate :: "RawText \<Rightarrow> CleanText \<Rightarrow> bool"
  target :: CategoryLabel
  base_confidence :: real

record RuleVerdict =
  rv_label :: "CategoryLabel option"
  rv_confidence :: real
  rv_matched_pattern :: "nat option"

text \<open>
  Modelled from the spec: the "null verdict (confidence 0, label undefined)" of
  section 4.2.
\<close>

definition null_verdict :: RuleVerdict where
  "null_verdict = \<lparr> rv_label = None, rv_confidence = 0, rv_matched_pattern = None \<rparr>"

text \<open>
  Modelled from the spec: "Evaluation scans rules in priority order and returns the
  first match; if no rule predicate is satisfied, returns a null verdict (confidence 0,
  label undefined)" (section 4.2).
\<close>

fun evaluate_from :: "nat \<Rightarrow> Rule list \<Rightarrow> RawText \<Rightarrow> CleanText \<Rightarrow> RuleVerdict" where
  "evaluate_from i [] raw clean = null_verdict"
| "evaluate_from i (r # rs) raw clean =
     (if predicate r raw clean
      then \<lparr> rv_label = Some (target r), rv_confidence = base_confidence r,
             rv_matched_pattern = Some i \<rparr>
      else evaluate_from (Suc i) rs raw clean)"

definition evaluate :: "Rule list \<Rightarrow> RawText \<Rightarrow> CleanText \<Rightarrow> RuleVerdict" where
  "evaluate rs raw clean = evaluate_from 0 rs raw clean"

subsection \<open>Classifier and centroid verdicts\<close>

text \<open>
  Modelled from the spec: a \<^verbatim>\<open>ClassifierVerdict\<close> is "label_probabilities: mapping
  CategoryLabel -> float" (section 3), here the list of its entries. \<open>top_of\<close> is "its
  arg-max label and probability" (section 4.5); among equal probabilities the first
  entry wins, and an empty mapping has no arg-max.
\<close>

type_synonym ClassifierVerdict = "(CategoryLabel \<times> real) list"

fun top_from :: "CategoryLabel \<times> real \<Rightarrow> ClassifierVerdict \<Rightarrow> CategoryLabel \<times> real" where
  "top_from best [] = best"
| "top_from best (x # xs) = top_from (if snd best < snd x then x else best) xs"

definition top_of :: "ClassifierVerdict \<Rightarrow> (CategoryLabel \<times> real) option" where
  "top_of cv = (case cv of [] \<Rightarrow> None | x # xs \<Rightarrow> Some (top_from x xs))"

text \<open>
  Modelled from the spec: the \<^verbatim>\<open>InferenceFailure\<close> of section 7, an exception inside the
  classifier or the centroid store.
\<close>

datatype Failure = InferenceFailure

text \<open>
  Modelled from the spec: "strategy: one of {RULE, ML, HYBRID, FALLBACK}" (section 3).
  The second value is written \<open>ML_CLASSIFIER\<close>, its short form being a keyword of
  Isabelle.
\<close>

datatype Strategy = RULE | ML_CLASSIFIER | HYBRID | FALLBACK

text \<open>
  Modelled from the spec: an entry of a decision's trace, "the verdicts consulted"
  (section 3): the rule verdict, the classifier verdict, or the label and cosine score
  that the centroid store returned (section 4.4).
\<close>

datatype Verdict =
    RuleConsulted RuleVerdict
  | ClassifierConsulted ClassifierVerdict
  | CentroidConsulted CategoryLabel real

text \<open>
  Modelled from the spec: \<^verbatim>\<open>Decision\<close> is "category, confidence, strategy, trace: ordered
  list of the verdicts consulted" (section 3).
\<close>

record Decision =
  category :: CategoryLabel
  confidence :: real
  strategy :: Strategy
  trace :: "Verdict list"

subsection \<open>Fusion Controller\<close>

text \<open>
  Modelled from the spec: the context object of section 9, "the loaded model, loaded
  centroids, loaded rule table", with the configuration of section 4.5. \<open>predict\<close> and
  \<open>nearest_label\<close> are the contracts of sections 4.3 and 4.4; either may fail
  (section 7), and \<open>nearest_label\<close> answers \<open>None\<close> when the store holds no centroid. The
  specification gives no value for the rescue threshold, no margin for "meaningfully
  exceeds" and no formula for the "blend of probability and cosine_score"; they are
  fields of the context.
\<close>

record Context =
  tables :: NormalizerTables
  rules :: "Rule list"
  predict :: "CleanText \<Rightarrow> Failure + ClassifierVerdict"
  nearest_label :: "CleanText \<Rightarrow> Failure + (CategoryLabel \<times> real) option"
  rescue_threshold :: real
  margin :: real
  blend :: "real \<Rightarrow> real \<Rightarrow> real"

text \<open>
  Modelled from the spec: "HIGH_RULE_THRESHOLD (0.9)" and "ML_ACCEPT_THRESHOLD (0.7)"
  (section 4.5), named so that the decision algorithm does not spell out the numbers.
\<close>

definition HIGH_RULE_THRESHOLD :: real where
  "HIGH_RULE_THRESHOLD = 0.9"

definition ML_ACCEPT_THRESHOLD :: real where
  "ML_ACCEPT_THRESHOLD = 0.7"

text \<open>
  Modelled from the spec: state 5 of section 4.5, "emit Decision{label=Others,
  confidence=classifier's top probability, strategy=FALLBACK}".
\<close>

definition fallback :: "Verdict list \<Rightarrow> real \<Rightarrow> Decision" where
  "fallback tr p = \<lparr> category = Others, confidence = p, strategy = FALLBACK, trace = tr \<rparr>"

text \<open>
  Modelled from the spec: state 4 of section 4.5, "run Centroid Store lookup. If its
  cosine_score >= a rescue threshold AND its label agrees with, or meaningfully
  exceeds, the classifier's top label, emit Decision{label=centroid label,
  confidence=blend of probability and cosine_score, strategy=HYBRID}"; a lookup that
  finds no centroid is the recoverable failure of section 7 and falls back.
\<close>

definition embedding_rescue ::
  "Context \<Rightarrow> CleanText \<Rightarrow> Verdict list \<Rightarrow> CategoryLabel \<Rightarrow> real \<Rightarrow> Failure + Decision" where
  "embedding_rescue ctx clean tr top_label p =
     (case nearest_label ctx clean of
        Inl e \<Rightarrow> Inl e
      | Inr None \<Rightarrow> Inr (fallback tr p)
      | Inr (Some (centroid_label, cosine_score)) \<Rightarrow>
          (let tr' = tr @ [CentroidConsulted centroid_label cosine_score]
           in if rescue_threshold ctx \<le> cosine_score \<and>
                 (centroid_label = top_label \<or> p + margin ctx \<le> cosine_score)
              then Inr \<lparr> category = centroid_label, confidence = blend ctx p cosine_score,
                         strategy = HYBRID, trace = tr' \<rparr>
              else Inr (fallback tr' p)))"

text \<open>
  Modelled from the spec: state 3 of section 4.5, "run Sequence Classifier; take its
  arg-max label and probability. If probability >= ML_ACCEPT_THRESHOLD (0.7), emit
  Decision{label, confidence=probability, strategy=ML}"; otherwise state 4 follows.
  A failure of the classifier surfaces (section 7).
\<close>

definition classifier_check :: "Context \<Rightarrow> CleanText \<Rightarrow> Verdict list \<Rightarrow> Failure + Decision" where
  "classifier_check ctx clean tr =
     (case predict ctx clean of
        Inl e \<Rightarrow> Inl e
      | Inr cv \<Rightarrow>
          (case top_of cv of
             None \<Rightarrow> Inl InferenceFailure
           | Some (top_label, p) \<Rightarrow>
               (let tr' = tr @ [ClassifierConsulted cv]
                in if ML_ACCEPT_THRESHOLD \<le> p
                   then Inr \<lparr> category = top_label, confidence = p, strategy = ML_CLASSIFIER,
                              trace = tr' \<rparr>
                   else embedding_rescue ctx clean tr' top_label p)))"

text \<open>
  Modelled from the spec: section 7, "Fusion Controller should short-circuit to Others
  with confidence 0 rather than invoke the classifier on empty text". The check stands
  where the classifier would be invoked, after the rule check, whose pre-emption
  section 8 calls absolute. The specification names no strategy for this decision;
  it is taken to be FALLBACK.
\<close>

definition after_rules :: "Context \<Rightarrow> CleanText \<Rightarrow> Verdict list \<Rightarrow> Failure + Decision" where
  "after_rules ctx clean tr =
     (if clean = []
      then Inr \<lparr> category = Others, confidence = 0, strategy = FALLBACK, trace = tr \<rparr>
      else classifier_check ctx clean tr)"

text \<open>
  Modelled from the spec: \<^verbatim>\<open>classify(text: string) -> Decision\<close> (section 6), states 1 and
  2 of section 4.5: "normalize raw text once", then "if RuleVerdict.confidence >=
  HIGH_RULE_THRESHOLD (0.9), emit Decision{label, confidence, strategy=RULE}".
\<close>

definition classify :: "Context \<Rightarrow> RawText \<Rightarrow> Failure + Decision" where
  "classify ctx raw =
     (let clean = normalize_text (tables ctx) raw;
          verdict = evaluate (rules ctx) raw clean;
          tr = [RuleConsulted verdict]
      in case rv_label verdict of
           None \<Rightarrow> after_rules ctx clean tr
         | Some rule_label \<Rightarrow>
             if HIGH_RULE_THRESHOLD \<le> rv_confidence verdict
             then Inr \<lparr> category = rule_label, confidence = rv_confidence verdict,
                        strategy = RULE, trace = tr \<rparr>
             else after_rules ctx clean tr)"

section \<open>Examples\<close>

text \<open>Concrete stores, notifications and contexts on which the results are run.\<close>

definition lunch :: Transaction where
  "lunch = \<lparr> t_id = ''t1'', t_description = ''Payment to Swiggy'', t_amount = 389,
             t_category = ''Shopping'', t_date = ''2025-11-20'',
             t_recipient = Some ''Swiggy'', t_type = Some debit \<rparr>"

definition taxi :: Transaction where
  "taxi = \<lparr> t_id = ''t2'', t_description = ''Payment to Uber'', t_amount = 120,
            t_category = ''Transportation'', t_date = ''2025-11-21'',
            t_recipient = None, t_type = None \<rparr>"

definition lunch_again :: Transaction where
  "lunch_again = lunch\<lparr> t_description := ''Duplicate of t1'' \<rparr>"

definition recategorize :: TransactionUpdates where
  "recategorize = \<lparr> u_id = None, u_description = None, u_amount = None,
                    u_category = Some ''Food & Dining'', u_date = None,
                    u_recipient = None, u_type = None \<rparr>"

definition sample_storage :: LocalStorage where
  "sample_storage =
     \<lparr> transactions = [''transactai_transactions_919876543210'' \<mapsto> [taxi, lunch, lunch_again]],
       categories = [''transactai_categories_919876543210'' \<mapsto>
          [\<lparr> c_name = ''Food & Dining'', c_createdAt = ''2025-11-01'' \<rparr>,
           \<lparr> c_name = ''Shopping'', c_createdAt = ''2025-11-01'' \<rparr>]],
       auth_session = Some \<lparr> s_phone = ''+919876543210'', s_timestamp = ''2025-11-01'' \<rparr>,
       other_items = [''transactai_pin_919876543210'' \<mapsto> ''1234''] \<rparr>"

definition sample_tables :: NormalizerTables where
  "sample_tables =
     \<lparr> currency_markers = [''rs.'', ''rs'', ''inr''],
       amount_token = ''amounttoken'',
       entity_token = ''entitytoken'',
       long_digits = 10,
       variants = [(''pymt'', ''payment''), (''txn'', ''transaction'')],
       app_prefixes = [''gpay:''] \<rparr>"

definition swiggy_rule :: Rule where
  "swiggy_rule =
     \<lparr> predicate = (\<lambda>raw clean. ''swiggy'' \<in> set (tokens clean)),
       target = ''Food'', base_confidence = 0.95 \<rparr>"

text \<open>
  The scenario of section 8: "classifier top probability 0.55 for Fuel, centroid
  nearest label Fuel with cosine 0.8". The blend is the mean.
\<close>

definition sample_context :: Context where
  "sample_context =
     \<lparr> tables = sample_tables,
       rules = [swiggy_rule],
       predict = (\<lambda>clean. Inr [(''Food'', 0.2), (''Fuel'', 0.55), (''Bills'', 0.25)]),
       nearest_label = (\<lambda>clean. Inr (Some (''Fuel'', 0.8))),
       rescue_threshold = 0.6,
       margin = 0.1,
       blend = (\<lambda>p c. (p + c) / 2) \<rparr>"

text \<open>A classifier that is sure of itself, at the threshold exactly.\<close>

definition threshold_context :: Context where
  "threshold_context =
     sample_context\<lparr> predict := (\<lambda>clean. Inr [(''Fuel'', 0.7), (''Food'', 0.3)]) \<rparr>"

section \<open>Results on the browser-side store\<close>

subsection \<open>Searching and updating a transaction list\<close>

lemma findIndex_ge: "-1 \<le> findIndex p xs"
  by (induction xs) (auto simp: Let_def)

lemma findIndex_none: "findIndex p xs = -1 \<longleftrightarrow> (\<forall>x\<in>set xs. \<not> p x)"
proof (induction xs)
  case Nil
  show ?case by simp
next
  case (Cons x xs)
  have "-1 \<le> findIndex p xs" by (rule findIndex_ge)
  with Cons show ?case by (auto simp: Let_def)
qed

lemma findIndex_first:
  "findIndex p xs \<noteq> -1 \<Longrightarrow>
     \<exists>pre x post. xs = pre @ x # post \<and> (\<forall>y\<in>set pre. \<not> p y) \<and> p x \<and>
        findIndex p xs = int (length pre)"
proof (induction xs)
  case Nil
  then show ?case by simp
next
  case (Cons a xs)
  show ?case
  proof (cases "p a")
    case True
    then have "a # xs = [] @ a # xs \<and> (\<forall>y\<in>set []. \<not> p y) \<and> p a \<and> findIndex p (a # xs) = int (length ([]::'a list))"
      by simp
    then show ?thesis by blast
  next
    case False
    with Cons.prems have ne: "findIndex p xs \<noteq> -1"
      by (auto simp: Let_def split: if_splits)
    from Cons.IH [OF ne] obtain pre x post where
      h: "xs = pre @ x # post" "\<forall>y\<in>set pre. \<not> p y" "p x" "findIndex p xs = int (length pre)"
      by blast
    from h False ne have "a # xs = (a # pre) @ x # post \<and> (\<forall>y\<in>set (a # pre). \<not> p y) \<and> p x \<and>
        findIndex p (a # xs) = int (length (a # pre))"
      by (simp add: Let_def)
    then show ?thesis by blast
  qed
qed

lemma getUserKey_session:
  "auth_session ls' = auth_session ls \<Longrightarrow> getUserKey b uid (Some ls') = getUserKey b uid (Some ls)"
  by (simp add: getUserKey_def sessionKey_def split: option.splits)

lemma txn_getAll_transactions_update:
  "txn_getAll uid (Some (ls\<lparr>transactions := (transactions ls)(getUserKey TRANSACTIONS uid (Some ls) \<mapsto> ts)\<rparr>)) = ts"
proof -
  let ?ls' = "ls\<lparr>transactions := (transactions ls)(getUserKey TRANSACTIONS uid (Some ls) \<mapsto> ts)\<rparr>"
  have "getUserKey TRANSACTIONS uid (Some ?ls') = getUserKey TRANSACTIONS uid (Some ls)"
    by (rule getUserKey_session) simp
  then show ?thesis by (simp add: txn_getAll_def)
qed

lemma txn_update_absent:
  "\<forall>t\<in>set (txn_getAll uid (Some ls)). t_id t \<noteq> ident \<Longrightarrow> txn_update ident upd uid (Some ls) = Some ls"
  using findIndex_none [of "\<lambda>t. t_id t = ident" "txn_getAll uid (Some ls)"]
  by (simp add: txn_update_def Let_def)

lemma txn_update_present:
  assumes "txn_getAll uid (Some ls) = pre @ t # post" "\<forall>x\<in>set pre. t_id x \<noteq> ident" "t_id t = ident"
  shows "txn_update ident upd uid (Some ls) =
     Some (ls\<lparr>transactions := (transactions ls)(getUserKey TRANSACTIONS uid (Some ls) \<mapsto> pre @ spread t upd # post)\<rparr>)"
proof -
  let ?p = "\<lambda>t. t_id t = ident"
  let ?txs = "txn_getAll uid (Some ls)"
  have ne: "findIndex ?p ?txs \<noteq> -1"
    using assms by (simp add: findIndex_none)
  from findIndex_first [OF ne] obtain pre' x post' where
    h: "?txs = pre' @ x # post'" "\<forall>y\<in>set pre'. \<not> ?p y" "?p x" "findIndex ?p ?txs = int (length pre')"
    by blast
  have "pre' = pre"
  proof -
    have "takeWhile (\<lambda>t. \<not> ?p t) ?txs = pre'" using h by (simp add: takeWhile_append2)
    moreover have "takeWhile (\<lambda>t. \<not> ?p t) ?txs = pre" using assms by (simp add: takeWhile_append2)
    ultimately show ?thesis by simp
  qed
  with h assms have idx: "findIndex ?p ?txs = int (length pre)" by simp
  show ?thesis
    using ne idx assms(1) by (simp add: txn_update_def Let_def nth_append)
qed

text \<open>
  Claim C9. \<^verbatim>\<open>transactionService.update\<close> is a frame-respecting point update. On the server
  it does nothing. In a browser, if no stored transaction of the user has the given
  id, the whole storage is left as it was. Otherwise the stored list splits into the
  transactions before the first one with that id, that transaction \<open>t\<close>, and the rest;
  the call writes back the same list with \<open>t\<close> replaced by its merge with the update
  (\<open>spread t updates\<close>), under the same key, and changes nothing else in the storage;
  reading the list again returns it.
\<close>

theorem txn_update_point_update:
  "txn_update ident updates userId None = None \<and>
   ((\<forall>t \<in> set (txn_getAll userId (Some ls)). t_id t \<noteq> ident) \<longrightarrow>
      txn_update ident updates userId (Some ls) = Some ls) \<and>
   ((\<exists>t \<in> set (txn_getAll userId (Some ls)). t_id t = ident) \<longrightarrow>
      (\<exists>pre t post.
         txn_getAll userId (Some ls) = pre @ t # post \<and>
         (\<forall>x \<in> set pre. t_id x \<noteq> ident) \<and> t_id t = ident \<and>
         txn_update ident updates userId (Some ls) =
           Some (ls\<lparr>transactions := (transactions ls)
                   (getUserKey TRANSACTIONS userId (Some ls) \<mapsto> pre @ spread t updates # post)\<rparr>) \<and>
         txn_getAll userId (txn_update ident updates userId (Some ls)) =
           pre @ spread t updates # post))"
proof (intro conjI impI)
  show "txn_update ident updates userId None = None" by (simp add: txn_update_def)
next
  assume "\<forall>t \<in> set (txn_getAll userId (Some ls)). t_id t \<noteq> ident"
  then show "txn_update ident updates userId (Some ls) = Some ls" by (rule txn_update_absent)
next
  let ?txs = "txn_getAll userId (Some ls)"
  assume "\<exists>t \<in> set ?txs. t_id t = ident"
  then have "findIndex (\<lambda>t. t_id t = ident) ?txs \<noteq> -1" by (simp add: findIndex_none)
  from findIndex_first [OF this] obtain pre t post where
    s: "?txs = pre @ t # post" "\<forall>x \<in> set pre. t_id x \<noteq> ident" "t_id t = ident"
    by blast
  from txn_update_present [OF s] have
    u: "txn_update ident updates userId (Some ls) =
          Some (ls\<lparr>transactions := (transactions ls)
                  (getUserKey TRANSACTIONS userId (Some ls) \<mapsto> pre @ spread t updates # post)\<rparr>)" .
  have "txn_getAll userId (txn_update ident updates userId (Some ls)) = pre @ spread t updates # post"
    by (simp only: u txn_getAll_transactions_update)
  with s u show "\<exists>pre t post.
         txn_getAll userId (Some ls) = pre @ t # post \<and>
         (\<forall>x \<in> set pre. t_id x \<noteq> ident) \<and> t_id t = ident \<and>
         txn_update ident updates userId (Some ls) =
           Some (ls\<lparr>transactions := (transactions ls)
                   (getUserKey TRANSACTIONS userId (Some ls) \<mapsto> pre @ spread t updates # post)\<rparr>) \<and>
         txn_getAll userId (txn_update ident updates userId (Some ls)) =
           pre @ spread t updates # post"
    by blast
qed

text \<open>
  The sample storage holds three transactions, the last two with the same id. An update
  for an id that is not stored leaves the storage as it is; an update for the shared
  id changes the first of the two and nothing else.
\<close>

theorem txn_update_point_update_witness:
  "list_all (\<lambda>t. t_id t \<noteq> ''t9'') (txn_getAll None (Some sample_storage)) \<and>
   txn_update ''t9'' recategorize None (Some sample_storage) = Some sample_storage \<and>
   (\<exists>t \<in> set (txn_getAll None (Some sample_storage)). t_id t = ''t1'') \<and>
   txn_getAll None (Some sample_storage) = [taxi, lunch, lunch_again] \<and>
   txn_getAll None (txn_update ''t1'' recategorize None (Some sample_storage)) =
     [taxi, lunch\<lparr>t_category := ''Food & Dining''\<rparr>, lunch_again]"
proof -
  have a: "list_all (\<lambda>t. t_id t \<noteq> ''t9'') (txn_getAll None (Some sample_storage))"
    by code_simp
  then have "\<forall>t \<in> set (txn_getAll None (Some sample_storage)). t_id t \<noteq> ''t9''"
    by (simp only: list_all_iff)
  with txn_update_point_update [of "''t9''" recategorize None sample_storage]
  have b: "txn_update ''t9'' recategorize None (Some sample_storage) = Some sample_storage"
    by blast
  have c: "\<exists>t \<in> set (txn_getAll None (Some sample_storage)). t_id t = ''t1''"
    by code_simp
  have d: "txn_getAll None (Some sample_storage) = [taxi, lunch, lunch_again]"
    by code_simp
  have e: "txn_getAll None (txn_update ''t1'' recategorize None (Some sample_storage)) =
     [taxi, lunch\<lparr>t_category := ''Food & Dining''\<rparr>, lunch_again]"
    by code_simp
  from a b c d e show ?thesis by blast
qed

subsection \<open>Adding and removing categories\<close>

lemma cat_getAll_categories_update:
  "cat_getAll uid (Some (ls\<lparr>categories := (categories ls)(getUserKey CATEGORIES uid (Some ls) \<mapsto> cs)\<rparr>)) = cs"
proof -
  let ?ls' = "ls\<lparr>categories := (categories ls)(getUserKey CATEGORIES uid (Some ls) \<mapsto> cs)\<rparr>"
  have "getUserKey CATEGORIES uid (Some ?ls') = getUserKey CATEGORIES uid (Some ls)"
    by (rule getUserKey_session) simp
  then show ?thesis by (simp add: cat_getAll_def)
qed

lemma find_absent: "find p xs = None \<longleftrightarrow> (\<forall>x\<in>set xs. \<not> p x)"
  by (induction xs) auto

lemma cat_add_fresh:
  assumes "\<forall>c\<in>set (cat_getAll uid (Some ls)). lc (c_name c) \<noteq> lc name"
  shows "cat_add lc name uid now (Some ls) =
     Some (ls\<lparr>categories := (categories ls)(getUserKey CATEGORIES uid (Some ls) \<mapsto>
        cat_getAll uid (Some ls) @ [\<lparr> c_name = name, c_createdAt = now \<rparr>])\<rparr>)"
  using assms by (simp add: cat_add_def Let_def find_absent)

lemma cat_add_known:
  assumes "\<exists>c\<in>set (cat_getAll uid (Some ls)). lc (c_name c) = lc name"
  shows "cat_add lc name uid now (Some ls) = Some ls"
  using assms by (auto simp add: cat_add_def Let_def find_absent)

lemma cat_remove_eq:
  "cat_remove name uid (Some ls) =
     Some (ls\<lparr>categories := (categories ls)(getUserKey CATEGORIES uid (Some ls) \<mapsto>
        filter (\<lambda>c. c_name c \<noteq> name) (cat_getAll uid (Some ls)))\<rparr>)"
  by (simp add: cat_remove_def)

text \<open>
  Claim C6. Adding a label registers it: for every storage and every name that no
  stored category of the user equals once both are lowercased, \<^verbatim>\<open>categoryService.add\<close>
  writes a storage in which \<^verbatim>\<open>getNames\<close> returns the old names followed by the new name.
  The call creates nothing else: the transactions, the session, all other items and
  the category lists under every other key are what they were. The storage holds no
  centroid and no classifier weight, before or after.
\<close>

theorem cat_add_registers:
  assumes "\<forall>c\<in>set (cat_getAll userId (Some ls)). toLowerCase (c_name c) \<noteq> toLowerCase name"
  shows "\<exists>ls'. cat_add toLowerCase name userId now (Some ls) = Some ls' \<and>
           cat_getNames userId (Some ls') = cat_getNames userId (Some ls) @ [name] \<and>
           name \<in> set (cat_getNames userId (Some ls')) \<and>
           transactions ls' = transactions ls \<and>
           auth_session ls' = auth_session ls \<and>
           other_items ls' = other_items ls \<and>
           (\<forall>key. key \<noteq> getUserKey CATEGORIES userId (Some ls) \<longrightarrow>
                  categories ls' key = categories ls key)"
proof -
  let ?key = "getUserKey CATEGORIES userId (Some ls)"
  let ?new = "cat_getAll userId (Some ls) @ [\<lparr> c_name = name, c_createdAt = now \<rparr>]"
  let ?ls' = "ls\<lparr>categories := (categories ls)(?key \<mapsto> ?new)\<rparr>"
  have written: "cat_add toLowerCase name userId now (Some ls) = Some ?ls'"
    using assms by (rule cat_add_fresh)
  have "cat_getAll userId (Some ?ls') = ?new"
    by (rule cat_getAll_categories_update)
  then have names: "cat_getNames userId (Some ?ls') = cat_getNames userId (Some ls) @ [name]"
    by (simp add: cat_getNames_def)
  then have included: "name \<in> set (cat_getNames userId (Some ?ls'))" by simp
  have frame: "transactions ?ls' = transactions ls" "auth_session ?ls' = auth_session ls"
      "other_items ?ls' = other_items ls"
      "\<forall>key. key \<noteq> ?key \<longrightarrow> categories ?ls' key = categories ls key"
    by simp_all
  from written names included frame show ?thesis by blast
qed

text \<open>
  In the sample storage no category is called "Pet Care" in any case; adding it appends
  it to the names.
\<close>

theorem cat_add_registers_witness:
  "list_all (\<lambda>c. ascii_toLowerCase (c_name c) \<noteq> ascii_toLowerCase ''Pet Care'')
     (cat_getAll None (Some sample_storage)) \<and>
   cat_getNames None (cat_add ascii_toLowerCase ''Pet Care'' None ''2025-11-22'' (Some sample_storage)) =
     [''Food & Dining'', ''Shopping'', ''Pet Care'']"
proof -
  have a: "list_all (\<lambda>c. ascii_toLowerCase (c_name c) \<noteq> ascii_toLowerCase ''Pet Care'')
     (cat_getAll None (Some sample_storage))"
    by code_simp
  then have h: "\<forall>c \<in> set (cat_getAll None (Some sample_storage)).
      ascii_toLowerCase (c_name c) \<noteq> ascii_toLowerCase ''Pet Care''"
    by (simp only: list_all_iff)
  from cat_add_registers [OF h, of "''2025-11-22''"] obtain ls' where
    "cat_add ascii_toLowerCase ''Pet Care'' None ''2025-11-22'' (Some sample_storage) = Some ls'"
    "cat_getNames None (Some ls') = cat_getNames None (Some sample_storage) @ [''Pet Care'']"
    by blast
  moreover have "cat_getNames None (Some sample_storage) = [''Food & Dining'', ''Shopping'']"
    by code_simp
  ultimately show ?thesis using a by simp
qed

lemma ci_distinct_getAll:
  "categories_ok lc (Some ls) \<Longrightarrow> ci_distinct lc (cat_getAll uid (Some ls))"
  by (auto simp: categories_ok_def cat_getAll_def ci_distinct_def ran_def split: option.splits)

lemma ci_distinct_snoc:
  "ci_distinct lc cs \<Longrightarrow> \<forall>c\<in>set cs. lc (c_name c) \<noteq> lc name \<Longrightarrow>
     ci_distinct lc (cs @ [\<lparr> c_name = name, c_createdAt = now \<rparr>])"
  by (auto simp: ci_distinct_def)

lemma ci_distinct_filter: "ci_distinct lc cs \<Longrightarrow> ci_distinct lc (filter p cs)"
  by (simp add: ci_distinct_def distinct_map_filter)

lemma categories_ok_update:
  "categories_ok lc (Some ls) \<Longrightarrow> ci_distinct lc cs \<Longrightarrow>
     categories_ok lc (Some (ls\<lparr>categories := (categories ls)(k \<mapsto> cs)\<rparr>))"
  by (auto simp: categories_ok_def ran_def split: if_splits)

lemma cat_add_ok: "categories_ok lc w \<Longrightarrow> categories_ok lc (cat_add lc name uid now w)"
proof (cases w)
  case None
  then show ?thesis by (simp add: cat_add_def categories_ok_def)
next
  case (Some ls)
  assume ok: "categories_ok lc w"
  show ?thesis
  proof (cases "\<forall>c\<in>set (cat_getAll uid (Some ls)). lc (c_name c) \<noteq> lc name")
    case True
    with ok Some show ?thesis
      by (simp add: cat_add_fresh categories_ok_update ci_distinct_snoc ci_distinct_getAll)
  next
    case False
    with ok Some show ?thesis by (simp add: cat_add_known)
  qed
qed

lemma cat_remove_ok: "categories_ok lc w \<Longrightarrow> categories_ok lc (cat_remove name uid w)"
proof (cases w)
  case None
  then show ?thesis by (simp add: cat_remove_def categories_ok_def)
next
  case (Some ls)
  assume "categories_ok lc w"
  with Some show ?thesis
    by (simp add: cat_remove_eq categories_ok_update ci_distinct_filter ci_distinct_getAll)
qed

lemma perform_ok: "categories_ok lc w \<Longrightarrow> categories_ok lc (perform lc c w)"
proof (cases c)
  case (CatAdd n u now)
  assume "categories_ok lc w"
  then show ?thesis using CatAdd by (simp add: cat_add_ok)
next
  case (CatRemove n u)
  assume "categories_ok lc w"
  then show ?thesis using CatRemove by (simp add: cat_remove_ok)
qed (auto simp: categories_ok_def txn_save_def txn_saveMany_def txn_update_def txn_delete_def
      saveSession_def clearSession_def Let_def split: option.splits)

lemma perform_all_ok: "categories_ok lc w \<Longrightarrow> categories_ok lc (perform_all lc cs w)"
  by (induction cs arbitrary: w) (simp_all add: perform_ok)

lemma empty_storage_ok: "categories_ok lc (Some empty_storage)"
  by (simp add: categories_ok_def empty_storage_def)

text \<open>
  Claim C8. The stored category lists stay free of duplicates up to case. For a stored
  list whose names are pairwise distinct once lowercased: \<^verbatim>\<open>add\<close> with a name that equals
  a stored name up to case leaves the storage as it is; \<^verbatim>\<open>add\<close> with a fresh name appends
  exactly one entry; \<^verbatim>\<open>remove\<close> returns the stored list without the entries of that
  name; and the list is distinct up to case after either call. Hence every sequence
  of service calls keeps every category list of the storage distinct up to case, and,
  starting from an empty storage, no two stored categories ever differ only by case.
\<close>

theorem category_names_stay_distinct:
  "(ci_distinct toLowerCase (cat_getAll userId (Some ls)) \<longrightarrow>
      ((\<exists>c \<in> set (cat_getAll userId (Some ls)). toLowerCase (c_name c) = toLowerCase name) \<longrightarrow>
         cat_add toLowerCase name userId now (Some ls) = Some ls) \<and>
      ((\<forall>c \<in> set (cat_getAll userId (Some ls)). toLowerCase (c_name c) \<noteq> toLowerCase name) \<longrightarrow>
         cat_getAll userId (cat_add toLowerCase name userId now (Some ls)) =
           cat_getAll userId (Some ls) @ [\<lparr> c_name = name, c_createdAt = now \<rparr>]) \<and>
      cat_getAll userId (cat_remove name userId (Some ls)) =
        filter (\<lambda>c. c_name c \<noteq> name) (cat_getAll userId (Some ls)) \<and>
      ci_distinct toLowerCase (cat_getAll userId (cat_add toLowerCase name userId now (Some ls))) \<and>
      ci_distinct toLowerCase (cat_getAll userId (cat_remove name userId (Some ls)))) \<and>
   (categories_ok toLowerCase w \<longrightarrow> categories_ok toLowerCase (perform_all toLowerCase calls w)) \<and>
   categories_ok toLowerCase (perform_all toLowerCase calls (Some empty_storage))"
proof (intro conjI impI)
  assume "\<exists>c \<in> set (cat_getAll userId (Some ls)). toLowerCase (c_name c) = toLowerCase name"
  then show "cat_add toLowerCase name userId now (Some ls) = Some ls" by (rule cat_add_known)
next
  assume "\<forall>c \<in> set (cat_getAll userId (Some ls)). toLowerCase (c_name c) \<noteq> toLowerCase name"
  then show "cat_getAll userId (cat_add toLowerCase name userId now (Some ls)) =
      cat_getAll userId (Some ls) @ [\<lparr> c_name = name, c_createdAt = now \<rparr>]"
    by (simp only: cat_add_fresh cat_getAll_categories_update)
next
  show "cat_getAll userId (cat_remove name userId (Some ls)) =
      filter (\<lambda>c. c_name c \<noteq> name) (cat_getAll userId (Some ls))"
    by (simp only: cat_remove_eq cat_getAll_categories_update)
next
  assume d: "ci_distinct toLowerCase (cat_getAll userId (Some ls))"
  show "ci_distinct toLowerCase (cat_getAll userId (cat_add toLowerCase name userId now (Some ls)))"
  proof (cases "\<forall>c \<in> set (cat_getAll userId (Some ls)). toLowerCase (c_name c) \<noteq> toLowerCase name")
    case True
    with d show ?thesis
      by (simp only: cat_add_fresh cat_getAll_categories_update ci_distinct_snoc)
  next
    case False
    then have "cat_add toLowerCase name userId now (Some ls) = Some ls"
      by (simp add: cat_add_known)
    with d show ?thesis by simp
  qed
next
  assume d: "ci_distinct toLowerCase (cat_getAll userId (Some ls))"
  then show "ci_distinct toLowerCase (cat_getAll userId (cat_remove name userId (Some ls)))"
    by (simp only: cat_remove_eq cat_getAll_categories_update ci_distinct_filter)
next
  assume "categories_ok toLowerCase w"
  then show "categories_ok toLowerCase (perform_all toLowerCase calls w)" by (rule perform_all_ok)
next
  show "categories_ok toLowerCase (perform_all toLowerCase calls (Some empty_storage))"
    by (rule perform_all_ok) (rule empty_storage_ok)
qed

text \<open>
  In the sample storage "SHOPPING" meets the stored "Shopping", and the call changes
  nothing. From an empty storage, of three additions of "Travel" in different cases
  for the same user list only the first one is stored.
\<close>

theorem category_names_stay_distinct_witness:
  "ci_distinct ascii_toLowerCase (cat_getAll None (Some sample_storage)) \<and>
   (\<exists>c \<in> set (cat_getAll None (Some sample_storage)).
       ascii_toLowerCase (c_name c) = ascii_toLowerCase ''SHOPPING'') \<and>
   cat_add ascii_toLowerCase ''SHOPPING'' None ''2025-11-22'' (Some sample_storage) = Some sample_storage \<and>
   cat_getNames None (cat_remove ''Shopping'' None (Some sample_storage)) = [''Food & Dining''] \<and>
   cat_getNames None
     (perform_all ascii_toLowerCase
        [CatAdd ''Travel'' None ''d1'', CatAdd ''travel'' None ''d2'', CatRemove ''Shopping'' None,
         CatAdd ''TRAVEL'' (Some ''919876543210'') ''d3'']
        (Some empty_storage)) = [''Travel''] \<and>
   categories_ok ascii_toLowerCase
     (perform_all ascii_toLowerCase
        [CatAdd ''Travel'' None ''d1'', CatAdd ''travel'' None ''d2'', CatRemove ''Shopping'' None,
         CatAdd ''TRAVEL'' (Some ''919876543210'') ''d3'']
        (Some empty_storage))"
proof -
  have d: "ci_distinct ascii_toLowerCase (cat_getAll None (Some sample_storage))"
    by code_simp
  have k: "\<exists>c \<in> set (cat_getAll None (Some sample_storage)).
       ascii_toLowerCase (c_name c) = ascii_toLowerCase ''SHOPPING''"
    by code_simp
  note inst = category_names_stay_distinct [of ascii_toLowerCase None sample_storage "''SHOPPING''"
      "''2025-11-22''" "Some empty_storage"
      "[CatAdd ''Travel'' None ''d1'', CatAdd ''travel'' None ''d2'', CatRemove ''Shopping'' None,
         CatAdd ''TRAVEL'' (Some ''919876543210'') ''d3'']"]
  from inst d k have a: "cat_add ascii_toLowerCase ''SHOPPING'' None ''2025-11-22'' (Some sample_storage) =
      Some sample_storage"
    by blast
  from inst have o: "categories_ok ascii_toLowerCase
     (perform_all ascii_toLowerCase
        [CatAdd ''Travel'' None ''d1'', CatAdd ''travel'' None ''d2'', CatRemove ''Shopping'' None,
         CatAdd ''TRAVEL'' (Some ''919876543210'') ''d3'']
        (Some empty_storage))"
    by blast
  have r: "cat_getNames None (cat_remove ''Shopping'' None (Some sample_storage)) = [''Food & Dining'']"
    by code_simp
  have p: "cat_getNames None
     (perform_all ascii_toLowerCase
        [CatAdd ''Travel'' None ''d1'', CatAdd ''travel'' None ''d2'', CatRemove ''Shopping'' None,
         CatAdd ''TRAVEL'' (Some ''919876543210'') ''d3'']
        (Some empty_storage)) = [''Travel'']"
    by code_simp
  from d k a r p o show ?thesis by blast
qed

section \<open>Results on the notification filter\<close>

subsection \<open>Case-insensitive search\<close>

lemma regionMatches_iff:
  "regionMatches P kw t \<longleftrightarrow> (\<exists>mid post. t = mid @ post \<and> list_all2 (equals_ic P) mid kw)"
proof (induction P kw t rule: regionMatches.induct)
  case (1 P this)
  show ?case by simp
next
  case (2 P k ks)
  show ?case by simp
next
  case (3 P k ks c cs)
  show ?case
  proof
    assume "regionMatches P (k # ks) (c # cs)"
    with 3 obtain mid post where "equals_ic P c k" "cs = mid @ post" "list_all2 (equals_ic P) mid ks"
      by auto
    then have "c # cs = (c # mid) @ post \<and> list_all2 (equals_ic P) (c # mid) (k # ks)" by simp
    then show "\<exists>mid post. c # cs = mid @ post \<and> list_all2 (equals_ic P) mid (k # ks)" by blast
  next
    assume "\<exists>mid post. c # cs = mid @ post \<and> list_all2 (equals_ic P) mid (k # ks)"
    then obtain mid post where h: "c # cs = mid @ post" "list_all2 (equals_ic P) mid (k # ks)" by blast
    from h(2) obtain m ms where m: "mid = m # ms" "equals_ic P m k" "list_all2 (equals_ic P) ms ks"
      by (auto simp: list_all2_Cons2)
    with h(1) have "c = m" "cs = ms @ post" by simp_all
    with m 3 show "regionMatches P (k # ks) (c # cs)" by auto
  qed
qed

lemma contains_ic_iff: "contains_ic P t kw \<longleftrightarrow> occurs_ic P kw t"
proof (induction t)
  case Nil
  show ?case by (auto simp: occurs_ic_def regionMatches_iff)
next
  case (Cons c cs)
  show ?case
  proof
    assume "contains_ic P (c # cs) kw"
    then consider "regionMatches P kw (c # cs)" | "contains_ic P cs kw" by auto
    then show "occurs_ic P kw (c # cs)"
    proof cases
      case 1
      then obtain mid post where "c # cs = [] @ mid @ post" "list_all2 (equals_ic P) mid kw"
        by (auto simp: regionMatches_iff)
      then show ?thesis unfolding occurs_ic_def by blast
    next
      case 2
      with Cons obtain pre mid post where "cs = pre @ mid @ post" "list_all2 (equals_ic P) mid kw"
        by (auto simp: occurs_ic_def)
      then have "c # cs = (c # pre) @ mid @ post \<and> list_all2 (equals_ic P) mid kw" by simp
      then show ?thesis unfolding occurs_ic_def by blast
    qed
  next
    assume "occurs_ic P kw (c # cs)"
    then obtain pre mid post where h: "c # cs = pre @ mid @ post" "list_all2 (equals_ic P) mid kw"
      by (auto simp: occurs_ic_def)
    show "contains_ic P (c # cs) kw"
    proof (cases pre)
      case Nil
      with h have "regionMatches P kw (c # cs)" by (auto simp: regionMatches_iff)
      then show ?thesis by simp
    next
      case (Cons p ps)
      with h have "cs = ps @ mid @ post" by simp
      with h(2) have "occurs_ic P kw cs" unfolding occurs_ic_def by blast
      with Cons.IH show ?thesis by simp
    qed
  qed
qed

subsection \<open>Matching and the language of a pattern\<close>

lemma Nil_in_star: "[] \<in> star A"
proof -
  have "[] = concat ([]::kstring list) \<and> set ([]::kstring list) \<subseteq> A" by simp
  then show ?thesis unfolding star_def by blast
qed

lemma star_step: "u \<in> A \<Longrightarrow> v \<in> star A \<Longrightarrow> u @ v \<in> star A"
proof -
  assume u: "u \<in> A" and "v \<in> star A"
  then obtain ws where "v = concat ws" "set ws \<subseteq> A" unfolding star_def by blast
  with u have "u @ v = concat (u # ws) \<and> set (u # ws) \<subseteq> A" by simp
  then show ?thesis unfolding star_def by blast
qed

lemma star_Cons:
  "c # w \<in> star A \<longleftrightarrow> (\<exists>u v. w = u @ v \<and> c # u \<in> A \<and> v \<in> star A)"
proof
  assume "c # w \<in> star A"
  then obtain ws where ws: "c # w = concat ws" "set ws \<subseteq> A" unfolding star_def by blast
  then show "\<exists>u v. w = u @ v \<and> c # u \<in> A \<and> v \<in> star A"
  proof (induction ws)
    case Nil
    then show ?case by simp
  next
    case (Cons x xs)
    show ?case
    proof (cases x)
      case Nil
      with Cons show ?thesis by simp
    next
      case (Cons y ys)
      with Cons.prems have "y = c" "w = ys @ concat xs" "c # ys \<in> A" "set xs \<subseteq> A" by auto
      moreover then have "concat xs \<in> star A" unfolding star_def by blast
      ultimately show ?thesis by blast
    qed
  qed
next
  assume "\<exists>u v. w = u @ v \<and> c # u \<in> A \<and> v \<in> star A"
  then obtain u v where "w = u @ v" "c # u \<in> A" "v \<in> star A" by blast
  then show "c # w \<in> star A" using star_step [of "c # u" A v] by simp
qed

lemma conc_Cons:
  "c # w \<in> conc A B \<longleftrightarrow> (\<exists>u v. w = u @ v \<and> c # u \<in> A \<and> v \<in> B) \<or> ([] \<in> A \<and> c # w \<in> B)"
  unfolding conc_def by (auto simp: Cons_eq_append_conv)

lemma conc_class: "m \<in> conc {[c] |c. p c} B \<longleftrightarrow> (\<exists>c t. m = c # t \<and> p c \<and> t \<in> B)"
proof
  assume "m \<in> conc {[c] |c. p c} B"
  then obtain u v where "m = u @ v" "u \<in> {[c] |c. p c}" "v \<in> B" unfolding conc_def by blast
  then show "\<exists>c t. m = c # t \<and> p c \<and> t \<in> B" by auto
next
  assume "\<exists>c t. m = c # t \<and> p c \<and> t \<in> B"
  then obtain c t where "m = [c] @ t" "[c] \<in> {[c] |c. p c}" "t \<in> B" by auto
  then show "m \<in> conc {[c] |c. p c} B" unfolding conc_def by blast
qed

lemma nullable_iff: "nullable r \<longleftrightarrow> [] \<in> lang P r"
  by (induction r) (auto simp: conc_def Nil_in_star)

lemma lang_deriv: "w \<in> lang P (deriv P c r) \<longleftrightarrow> c # w \<in> lang P r"
proof (induction r arbitrary: w)
  case (Seq a b)
  then show ?case
    by (auto simp: conc_Cons nullable_iff [of _ P]) (auto simp: conc_def)
next
  case (Star a)
  then show ?case by (auto simp: star_Cons) (auto simp: conc_def)
next
  case (Plus a)
  then show ?case
    by (auto simp: conc_Cons star_Cons nullable_iff [of _ P]) (auto simp: conc_def)
qed (auto simp: conc_def)

lemma lookingAt_iff: "lookingAt P r t \<longleftrightarrow> (\<exists>u v. t = u @ v \<and> u \<in> lang P r)"
proof (induction t arbitrary: r)
  case Nil
  show ?case by (simp add: nullable_iff [of _ P])
next
  case (Cons c cs)
  show ?case
  proof
    assume "lookingAt P r (c # cs)"
    then consider "nullable r" | "lookingAt P (deriv P c r) cs" by auto
    then show "\<exists>u v. c # cs = u @ v \<and> u \<in> lang P r"
    proof cases
      case 1
      then have "c # cs = [] @ (c # cs) \<and> [] \<in> lang P r" by (simp add: nullable_iff [of _ P])
      then show ?thesis by blast
    next
      case 2
      with Cons obtain u v where "cs = u @ v" "u \<in> lang P (deriv P c r)" by blast
      then have "c # cs = (c # u) @ v \<and> c # u \<in> lang P r" by (simp add: lang_deriv)
      then show ?thesis by blast
    qed
  next
    assume "\<exists>u v. c # cs = u @ v \<and> u \<in> lang P r"
    then obtain u v where h: "c # cs = u @ v" "u \<in> lang P r" by blast
    show "lookingAt P r (c # cs)"
    proof (cases u)
      case Nil
      with h have "nullable r" by (simp add: nullable_iff [of _ P])
      then show ?thesis by simp
    next
      case (Cons a as)
      with h have "cs = as @ v" "as \<in> lang P (deriv P c r)" by (simp_all add: lang_deriv)
      with Cons.IH [of "deriv P c r"] show ?thesis by auto
    qed
  qed
qed

lemma containsMatchIn_iff:
  "containsMatchIn P r t \<longleftrightarrow> (\<exists>pre u post. t = pre @ u @ post \<and> u \<in> lang P r)"
proof (induction t)
  case Nil
  show ?case by (simp add: nullable_iff [of _ P])
next
  case (Cons c cs)
  show ?case
  proof
    assume "containsMatchIn P r (c # cs)"
    then consider "lookingAt P r (c # cs)" | "containsMatchIn P r cs" by auto
    then show "\<exists>pre u post. c # cs = pre @ u @ post \<and> u \<in> lang P r"
    proof cases
      case 1
      then obtain u v where "c # cs = [] @ u @ v" "u \<in> lang P r" by (auto simp: lookingAt_iff)
      then show ?thesis by blast
    next
      case 2
      with Cons obtain pre u post where "cs = pre @ u @ post" "u \<in> lang P r" by blast
      then have "c # cs = (c # pre) @ u @ post \<and> u \<in> lang P r" by simp
      then show ?thesis by blast
    qed
  next
    assume "\<exists>pre u post. c # cs = pre @ u @ post \<and> u \<in> lang P r"
    then obtain pre u post where h: "c # cs = pre @ u @ post" "u \<in> lang P r" by blast
    show "containsMatchIn P r (c # cs)"
    proof (cases pre)
      case Nil
      with h have "lookingAt P r (c # cs)" by (auto simp: lookingAt_iff)
      then show ?thesis by simp
    next
      case (Cons a as)
      with h have "cs = as @ u @ post" by simp
      with h(2) Cons.IH show ?thesis by auto
    qed
  qed
qed

lemma lang_lit: "m \<in> lang P (lit w) \<longleftrightarrow> list_all2 (regex_ci_eq P) w m"
proof (induction w arbitrary: m rule: lit.induct)
  case 1
  show ?case by simp
next
  case (2 k)
  show ?case by (auto simp: list_all2_Cons1)
next
  case (3 k v va)
  have "m \<in> lang P (lit (k # v # va)) \<longleftrightarrow>
          (\<exists>c t. m = c # t \<and> regex_ci_eq P k c \<and> t \<in> lang P (lit (v # va)))"
    by (simp add: conc_class)
  also have "\<dots> \<longleftrightarrow> (\<exists>c t. m = c # t \<and> regex_ci_eq P k c \<and> list_all2 (regex_ci_eq P) (v # va) t)"
    by (simp only: 3)
  also have "\<dots> \<longleftrightarrow> list_all2 (regex_ci_eq P) (k # v # va) m"
    by (simp only: list_all2_Cons1 [of _ k])
  finally show ?case .
qed

lemma star_class: "ws \<in> star {[c] |c. p c} \<longleftrightarrow> (\<forall>c \<in> set ws. p c)"
proof (induction ws)
  case Nil
  show ?case by (simp add: Nil_in_star)
next
  case (Cons a as)
  have "a # as \<in> star {[c] |c. p c} \<longleftrightarrow> p a \<and> as \<in> star {[c] |c. p c}"
    by (auto simp: star_Cons)
  with Cons show ?case by simp
qed

lemma plus_class:
  "ds \<in> conc {[c] |c. p c} (star {[c] |c. p c}) \<longleftrightarrow> ds \<noteq> [] \<and> (\<forall>c \<in> set ds. p c)"
proof (cases ds)
  case Nil
  then show ?thesis by (simp add: conc_def)
next
  case (Cons a as)
  have "a # as \<in> conc {[c] |c. p c} (star {[c] |c. p c}) \<longleftrightarrow> p a \<and> as \<in> star {[c] |c. p c}"
    by (simp add: conc_class)
  with Cons show ?thesis by (simp add: star_class)
qed

subsection \<open>The amount pattern and the filter\<close>

lemma lang_marker:
  "m \<in> lang P (Alt (lit rupee) (Alt (Seq (lit (str ''rs'')) (Opt (Chr 46))) (lit (str ''inr''))))
     \<longleftrightarrow> currency_marker P m"
proof -
  have dot: "str ''rs.'' = str ''rs'' @ [46]" by (simp add: str_def)
  have "m \<in> lang P (Seq (lit (str ''rs'')) (Opt (Chr 46))) \<longleftrightarrow>
          list_all2 (regex_ci_eq P) (str ''rs'') m \<or> list_all2 (regex_ci_eq P) (str ''rs.'') m"
  proof
    assume "m \<in> lang P (Seq (lit (str ''rs'')) (Opt (Chr 46)))"
    then obtain u v where uv: "m = u @ v" "list_all2 (regex_ci_eq P) (str ''rs'') u"
        "v = [] \<or> (\<exists>c. v = [c] \<and> regex_ci_eq P 46 c)"
      by (auto simp: conc_def lang_lit)
    from uv(3) show "list_all2 (regex_ci_eq P) (str ''rs'') m \<or> list_all2 (regex_ci_eq P) (str ''rs.'') m"
    proof
      assume "v = []" with uv show ?thesis by simp
    next
      assume "\<exists>c. v = [c] \<and> regex_ci_eq P 46 c"
      then obtain c where "v = [c]" "regex_ci_eq P 46 c" by blast
      with uv have "list_all2 (regex_ci_eq P) (str ''rs'' @ [46]) m"
        by (simp add: list_all2_appendI)
      then show ?thesis by (simp add: dot)
    qed
  next
    assume "list_all2 (regex_ci_eq P) (str ''rs'') m \<or> list_all2 (regex_ci_eq P) (str ''rs.'') m"
    then show "m \<in> lang P (Seq (lit (str ''rs'')) (Opt (Chr 46)))"
    proof
      assume a: "list_all2 (regex_ci_eq P) (str ''rs'') m"
      then have "m = m @ [] \<and> m \<in> lang P (lit (str ''rs'')) \<and> [] \<in> lang P (Opt (Chr 46))"
        by (simp add: lang_lit)
      then show ?thesis unfolding lang.simps conc_def by blast
    next
      assume "list_all2 (regex_ci_eq P) (str ''rs.'') m"
      then have "list_all2 (regex_ci_eq P) (str ''rs'' @ [46]) m" by (simp add: dot)
      then obtain u v where "m = u @ v" "list_all2 (regex_ci_eq P) (str ''rs'') u"
          "list_all2 (regex_ci_eq P) [46] v"
        by (auto simp: list_all2_append1)
      then have "m = u @ v \<and> u \<in> lang P (lit (str ''rs'')) \<and> v \<in> lang P (Opt (Chr 46))"
        by (auto simp: lang_lit list_all2_Cons1)
      then show ?thesis unfolding lang.simps(7) conc_def by blast
    qed
  qed
  then show ?thesis
    by (auto simp: currency_marker_def lang_lit)
qed

lemma lang_tail:
  "t \<in> lang P (Seq (Star Space) (Plus Digit)) \<longleftrightarrow>
     (\<exists>ws ds. t = ws @ ds \<and> (\<forall>c \<in> set ws. regex_space P c) \<and> ds \<noteq> [] \<and>
        (\<forall>c \<in> set ds. regex_digit P c))"
proof -
  have "t \<in> lang P (Seq (Star Space) (Plus Digit)) \<longleftrightarrow>
      (\<exists>ws ds. t = ws @ ds \<and> ws \<in> star {[c] |c. regex_space P c} \<and>
         ds \<in> conc {[c] |c. regex_digit P c} (star {[c] |c. regex_digit P c}))"
    by (simp add: conc_def [of "star _"])
  then show ?thesis by (simp only: star_class plus_class)
qed

lemma lang_amountPattern:
  "u \<in> lang P amountPattern \<longleftrightarrow>
     (\<exists>m ws ds. u = m @ ws @ ds \<and> currency_marker P m \<and> (\<forall>c \<in> set ws. regex_space P c) \<and>
        ds \<noteq> [] \<and> (\<forall>c \<in> set ds. regex_digit P c))"
proof -
  let ?M = "Alt (lit rupee) (Alt (Seq (lit (str ''rs'')) (Opt (Chr 46))) (lit (str ''inr'')))"
  let ?T = "Seq (Star Space) (Plus Digit)"
  have "u \<in> lang P amountPattern \<longleftrightarrow> (\<exists>m t. u = m @ t \<and> m \<in> lang P ?M \<and> t \<in> lang P ?T)"
    unfolding amountPattern_def lang.simps(7) [of P ?M ?T] conc_def by blast
  also have "\<dots> \<longleftrightarrow> (\<exists>m t. u = m @ t \<and> currency_marker P m \<and>
      (\<exists>ws ds. t = ws @ ds \<and> (\<forall>c \<in> set ws. regex_space P c) \<and> ds \<noteq> [] \<and>
        (\<forall>c \<in> set ds. regex_digit P c)))"
    by (simp only: lang_marker lang_tail)
  also have "\<dots> \<longleftrightarrow> (\<exists>m ws ds. u = m @ ws @ ds \<and> currency_marker P m \<and>
      (\<forall>c \<in> set ws. regex_space P c) \<and> ds \<noteq> [] \<and> (\<forall>c \<in> set ds. regex_digit P c))"
    by blast
  finally show ?thesis .
qed

lemma hasAmountPattern_iff: "containsMatchIn P amountPattern text \<longleftrightarrow> has_amount P text"
proof
  assume "containsMatchIn P amountPattern text"
  then obtain pre u post where "text = pre @ u @ post" "u \<in> lang P amountPattern"
    unfolding containsMatchIn_iff by blast
  then obtain m ws ds where "text = pre @ m @ ws @ ds @ post" "currency_marker P m"
      "\<forall>c \<in> set ws. regex_space P c" "ds \<noteq> []" "\<forall>c \<in> set ds. regex_digit P c"
    unfolding lang_amountPattern by auto
  then show "has_amount P text" unfolding has_amount_def by blast
next
  assume "has_amount P text"
  then obtain pre m ws ds post where h: "text = pre @ m @ ws @ ds @ post" "currency_marker P m"
      "\<forall>c \<in> set ws. regex_space P c" "ds \<noteq> []" "\<forall>c \<in> set ds. regex_digit P c"
    unfolding has_amount_def by blast
  then have "m @ ws @ ds \<in> lang P amountPattern" unfolding lang_amountPattern by blast
  moreover from h have "text = pre @ (m @ ws @ ds) @ post" by simp
  ultimately show "containsMatchIn P amountPattern text" unfolding containsMatchIn_iff by blast
qed

lemma isPaymentApp_iff:
  "(contains_ic P packageName (str ''payment'') \<or>
    contains_ic P packageName (str ''bank'') \<or>
    contains_ic P packageName (str ''upi'') \<or>
    contains_ic P packageName (str ''wallet'') \<or>
    contains_ic P packageName (str ''pay'') \<or>
    packageName \<in> set paymentPackages) \<longleftrightarrow> payment_app P packageName"
  by (simp add: contains_ic_iff payment_app_def paymentPackages_def)

lemma hasTransactionKeywords_iff:
  "list_ex (\<lambda>keyword. contains_ic P text keyword) transactionKeywords \<longleftrightarrow> has_keyword P text"
  by (simp only: list_ex_iff contains_ic_iff has_keyword_def)

text \<open>
  Claim C10. \<^verbatim>\<open>isTransactionNotification(packageName, text)\<close> is true if and only if
  either the package passes the payment-app check (its name contains "payment",
  "bank", "upi", "wallet" or "pay" in any case, or is one of the six listed packages)
  and the text contains one of the transaction keywords in any case, or the text
  contains a currency amount: a rupee sign, "rs", "rs." or "inr" in any case, any
  white space, and at least one digit. In particular a text with such an amount is
  accepted whichever app posted it. This holds for every platform, whatever its case
  mappings, digits and white space are.
\<close>

theorem isTransactionNotification_meaning:
  "(isTransactionNotification P packageName text \<longleftrightarrow>
      (payment_app P packageName \<and> has_keyword P text) \<or> has_amount P text) \<and>
   (has_amount P text \<longrightarrow> (\<forall>anyPackage. isTransactionNotification P anyPackage text))"
proof -
  have eq: "isTransactionNotification P pkg text \<longleftrightarrow>
      (payment_app P pkg \<and> has_keyword P text) \<or> has_amount P text" for pkg
    unfolding isTransactionNotification_def Let_def
    by (simp only: isPaymentApp_iff hasTransactionKeywords_iff hasAmountPattern_iff)
  show ?thesis using eq by blast
qed

text \<open>
  On the ASCII platform: "Rs 5" is accepted from an app that is not a payment app;
  "PAID" is accepted from Paytm and rejected from the other app.
\<close>

theorem isTransactionNotification_meaning_witness:
  "has_amount ascii_platform (str ''Rs 5'') \<and>
   isTransactionNotification ascii_platform (str ''notes'') (str ''Rs 5'') \<and>
   payment_app ascii_platform (str ''com.paytm'') \<and>
   has_keyword ascii_platform (str ''PAID'') \<and>
   isTransactionNotification ascii_platform (str ''com.paytm'') (str ''PAID'') \<and>
   \<not> isTransactionNotification ascii_platform (str ''notes'') (str ''PAID'')"
proof -
  have m: "containsMatchIn ascii_platform amountPattern (str ''Rs 5'')"
    by code_simp
  then have a: "has_amount ascii_platform (str ''Rs 5'')"
    by (simp only: hasAmountPattern_iff)
  with isTransactionNotification_meaning [of ascii_platform "str ''notes''" "str ''Rs 5''"]
  have b: "isTransactionNotification ascii_platform (str ''notes'') (str ''Rs 5'')"
    by blast
  have "contains_ic ascii_platform (str ''com.paytm'') (str ''payment'') \<or>
    contains_ic ascii_platform (str ''com.paytm'') (str ''bank'') \<or>
    contains_ic ascii_platform (str ''com.paytm'') (str ''upi'') \<or>
    contains_ic ascii_platform (str ''com.paytm'') (str ''wallet'') \<or>
    contains_ic ascii_platform (str ''com.paytm'') (str ''pay'') \<or>
    str ''com.paytm'' \<in> set paymentPackages"
    by code_simp
  then have c: "payment_app ascii_platform (str ''com.paytm'')"
    by (simp only: isPaymentApp_iff)
  have "list_ex (\<lambda>keyword. contains_ic ascii_platform (str ''PAID'') keyword) transactionKeywords"
    by code_simp
  then have d: "has_keyword ascii_platform (str ''PAID'')"
    by (simp only: hasTransactionKeywords_iff)
  from c d isTransactionNotification_meaning [of ascii_platform "str ''com.paytm''" "str ''PAID''"]
  have e: "isTransactionNotification ascii_platform (str ''com.paytm'') (str ''PAID'')"
    by blast
  have f: "\<not> isTransactionNotification ascii_platform (str ''notes'') (str ''PAID'')"
    by code_simp
  from a b c d e f show ?thesis by blast
qed

section \<open>Results on the categorization core\<close>

subsection \<open>Rule pre-emption\<close>

lemma evaluate_from_cases:
  "evaluate_from k rs raw clean = null_verdict \<or>
   (\<exists>i < length rs. predicate (rs ! i) raw clean \<and> (\<forall>j < i. \<not> predicate (rs ! j) raw clean) \<and>
      evaluate_from k rs raw clean =
        \<lparr> rv_label = Some (target (rs ! i)), rv_confidence = base_confidence (rs ! i),
          rv_matched_pattern = Some (k + i) \<rparr>)"
proof (induction rs arbitrary: k)
  case Nil
  show ?case by simp
next
  case (Cons r rs)
  show ?case
  proof (cases "predicate r raw clean")
    case True
    then have "0 < length (r # rs) \<and> predicate ((r # rs) ! 0) raw clean \<and>
        (\<forall>j < 0. \<not> predicate ((r # rs) ! j) raw clean) \<and>
        evaluate_from k (r # rs) raw clean =
          \<lparr> rv_label = Some (target ((r # rs) ! 0)), rv_confidence = base_confidence ((r # rs) ! 0),
            rv_matched_pattern = Some (k + 0) \<rparr>"
      by simp
    then show ?thesis by blast
  next
    case False
    from Cons [of "Suc k"] show ?thesis
    proof
      assume "evaluate_from (Suc k) rs raw clean = null_verdict"
      with False show ?thesis by simp
    next
      assume "\<exists>i < length rs. predicate (rs ! i) raw clean \<and> (\<forall>j < i. \<not> predicate (rs ! j) raw clean) \<and>
        evaluate_from (Suc k) rs raw clean =
          \<lparr> rv_label = Some (target (rs ! i)), rv_confidence = base_confidence (rs ! i),
            rv_matched_pattern = Some (Suc k + i) \<rparr>"
      then obtain i where i: "i < length rs" "predicate (rs ! i) raw clean"
          "\<forall>j < i. \<not> predicate (rs ! j) raw clean"
          "evaluate_from (Suc k) rs raw clean =
            \<lparr> rv_label = Some (target (rs ! i)), rv_confidence = base_confidence (rs ! i),
              rv_matched_pattern = Some (Suc k + i) \<rparr>"
        by blast
      have "\<forall>j < Suc i. \<not> predicate ((r # rs) ! j) raw clean"
        using False i(3) by (auto simp: less_Suc_eq_0_disj)
      with i False have "Suc i < length (r # rs) \<and> predicate ((r # rs) ! Suc i) raw clean \<and>
        (\<forall>j < Suc i. \<not> predicate ((r # rs) ! j) raw clean) \<and>
        evaluate_from k (r # rs) raw clean =
          \<lparr> rv_label = Some (target ((r # rs) ! Suc i)),
            rv_confidence = base_confidence ((r # rs) ! Suc i),
            rv_matched_pattern = Some (k + Suc i) \<rparr>"
        by simp
      then show ?thesis by blast
    qed
  qed
qed

lemma classify_rules_only:
  "tables ctx' = tables ctx \<Longrightarrow> rules ctx' = rules ctx \<Longrightarrow>
   rv_label (evaluate (rules ctx) raw (normalize_text (tables ctx) raw)) = Some l \<Longrightarrow>
   HIGH_RULE_THRESHOLD \<le> rv_confidence (evaluate (rules ctx) raw (normalize_text (tables ctx) raw)) \<Longrightarrow>
   classify ctx' raw = classify ctx raw"
  by (simp add: classify_def Let_def)

text \<open>
  Claim C1. Whenever the Rule Engine answers a text with a confidence of at least 0.9,
  the controller returns a decision of strategy RULE with that confidence; its label
  is the target label of the rule that matched, which is the first rule of the table
  whose predicate holds of the text. The decision is the same in every context with
  the same tables and rules, whatever the classifier and the centroid store of that
  context return, a failure included.
\<close>

theorem rule_preemption:
  assumes "0.9 \<le> rv_confidence (evaluate (rules ctx) raw (normalize_text (tables ctx) raw))"
  shows "\<exists>d i. classify ctx raw = Inr d \<and> strategy d = RULE \<and>
           confidence d = rv_confidence (evaluate (rules ctx) raw (normalize_text (tables ctx) raw)) \<and>
           i < length (rules ctx) \<and>
           predicate (rules ctx ! i) raw (normalize_text (tables ctx) raw) \<and>
           (\<forall>j < i. \<not> predicate (rules ctx ! j) raw (normalize_text (tables ctx) raw)) \<and>
           category d = target (rules ctx ! i) \<and>
           (\<forall>other. tables other = tables ctx \<and> rules other = rules ctx \<longrightarrow>
              classify other raw = classify ctx raw)"
proof -
  let ?clean = "normalize_text (tables ctx) raw"
  let ?v = "evaluate (rules ctx) raw ?clean"
  have nz: "rv_confidence ?v \<noteq> 0" using assms by simp
  have "evaluate_from 0 (rules ctx) raw ?clean \<noteq> null_verdict"
  proof
    assume "evaluate_from 0 (rules ctx) raw ?clean = null_verdict"
    then have "rv_confidence ?v = 0" by (simp only: evaluate_def null_verdict_def RuleVerdict.simps)
    with nz show False by simp
  qed
  with evaluate_from_cases [of 0 "rules ctx" raw ?clean]
  obtain i where i: "i < length (rules ctx)" "predicate (rules ctx ! i) raw ?clean"
      "\<forall>j < i. \<not> predicate (rules ctx ! j) raw ?clean"
      and v: "evaluate_from 0 (rules ctx) raw ?clean =
            \<lparr> rv_label = Some (target (rules ctx ! i)),
              rv_confidence = base_confidence (rules ctx ! i), rv_matched_pattern = Some (0 + i) \<rparr>"
    by blast
  have lab: "rv_label ?v = Some (target (rules ctx ! i))"
    by (simp only: evaluate_def v RuleVerdict.simps)
  have hi: "HIGH_RULE_THRESHOLD \<le> rv_confidence ?v"
    using assms by (simp only: HIGH_RULE_THRESHOLD_def)
  let ?d = "\<lparr> category = target (rules ctx ! i), confidence = rv_confidence ?v,
              strategy = RULE, trace = [RuleConsulted ?v] \<rparr>"
  have cl: "classify ctx raw = Inr ?d"
    unfolding classify_def Let_def using lab hi by simp
  have indep: "\<forall>other. tables other = tables ctx \<and> rules other = rules ctx \<longrightarrow>
      classify other raw = classify ctx raw"
    using classify_rules_only [OF _ _ lab hi] by blast
  have props: "strategy ?d = RULE" "confidence ?d = rv_confidence ?v"
      "category ?d = target (rules ctx ! i)"
    by simp_all
  from cl props i indep show ?thesis by blast
qed

text \<open>
  The scenario of section 8: "Rs. 1,250 debited via UPI to SWIGGY" with a rule for
  "swiggy" is decided by the rule, also when the classifier fails and the centroid
  store is empty.
\<close>

theorem rule_preemption_witness:
  "0.9 \<le> rv_confidence (evaluate (rules sample_context) ''Rs. 1,250 debited via UPI to SWIGGY''
      (normalize_text (tables sample_context) ''Rs. 1,250 debited via UPI to SWIGGY'')) \<and>
   classify sample_context ''Rs. 1,250 debited via UPI to SWIGGY'' =
     Inr \<lparr> category = ''Food'', confidence = 0.95, strategy = RULE,
           trace = [RuleConsulted \<lparr> rv_label = Some ''Food'', rv_confidence = 0.95,
                                    rv_matched_pattern = Some 0 \<rparr>] \<rparr> \<and>
   classify (sample_context\<lparr> predict := (\<lambda>clean. Inl InferenceFailure),
                             nearest_label := (\<lambda>clean. Inr None) \<rparr>)
       ''Rs. 1,250 debited via UPI to SWIGGY'' =
     classify sample_context ''Rs. 1,250 debited via UPI to SWIGGY''"
proof -
  let ?raw = "''Rs. 1,250 debited via UPI to SWIGGY''"
  let ?other = "sample_context\<lparr> predict := (\<lambda>clean. Inl InferenceFailure),
                                nearest_label := (\<lambda>clean. Inr None) \<rparr>"
  have h: "0.9 \<le> rv_confidence (evaluate (rules sample_context) ?raw
      (normalize_text (tables sample_context) ?raw))"
    by code_simp
  from rule_preemption [OF h] have
    "\<forall>other. tables other = tables sample_context \<and> rules other = rules sample_context \<longrightarrow>
       classify other ?raw = classify sample_context ?raw"
    by blast
  moreover have "tables ?other = tables sample_context \<and> rules ?other = rules sample_context"
    by simp
  ultimately have i: "classify ?other ?raw = classify sample_context ?raw" by blast
  have c: "classify sample_context ?raw =
     Inr \<lparr> category = ''Food'', confidence = 0.95, strategy = RULE,
           trace = [RuleConsulted \<lparr> rv_label = Some ''Food'', rv_confidence = 0.95,
                                    rv_matched_pattern = Some 0 \<rparr>] \<rparr>"
    by code_simp
  from h c i show ?thesis by blast
qed

subsection \<open>The classifier threshold\<close>

lemma top_from_result:
  "top_from best xs \<in> set (best # xs) \<and> (\<forall>e \<in> set (best # xs). snd e \<le> snd (top_from best xs))"
proof (induction xs arbitrary: best)
  case Nil
  show ?case by simp
next
  case (Cons x xs)
  let ?b = "if snd best < snd x then x else best"
  from Cons [of ?b] have m: "top_from ?b xs \<in> set (?b # xs)"
    and u: "\<forall>e \<in> set (?b # xs). snd e \<le> snd (top_from ?b xs)" by blast+
  from u have "snd ?b \<le> snd (top_from ?b xs)" by simp
  then have "snd best \<le> snd (top_from ?b xs)" "snd x \<le> snd (top_from ?b xs)"
    by (auto split: if_splits)
  with u m show ?case by (auto split: if_splits)
qed

lemma top_is_arg_max:
  "top_of cv = Some (l, p) \<Longrightarrow> (l, p) \<in> set cv \<and> (\<forall>e \<in> set cv. snd e \<le> p)"
proof (cases cv)
  case Nil
  assume "top_of cv = Some (l, p)"
  with Nil show ?thesis by (simp add: top_of_def)
next
  case (Cons x xs)
  assume "top_of cv = Some (l, p)"
  with Cons have "top_from x xs = (l, p)" by (simp add: top_of_def)
  with top_from_result [of x xs] Cons show ?thesis by simp
qed

lemma classify_no_rule:
  assumes "rv_confidence (evaluate (rules ctx) raw (normalize_text (tables ctx) raw)) < HIGH_RULE_THRESHOLD"
  shows "classify ctx raw =
     after_rules ctx (normalize_text (tables ctx) raw)
       [RuleConsulted (evaluate (rules ctx) raw (normalize_text (tables ctx) raw))]"
  using assms unfolding classify_def Let_def by (simp split: option.splits)

text \<open>
  Claim C3. When the rule verdict stays below 0.9 and the classifier is consulted (the
  clean text is not empty) and answers with a verdict whose arg-max is the label \<open>l\<close>
  with probability \<open>p\<close>, then \<open>p\<close> is the largest probability of the verdict, and: if
  \<open>p\<close> is at least 0.7, exactly 0.7 included, the decision is \<open>l\<close> with confidence \<open>p\<close>
  and strategy ML, and its trace shows that the centroid store was not consulted; if
  \<open>p\<close> is below 0.7 the decision is the one of the embedding rescue stage.
\<close>

theorem classifier_threshold_inclusive:
  assumes "rv_confidence (evaluate (rules ctx) raw (normalize_text (tables ctx) raw)) < 0.9"
    and "normalize_text (tables ctx) raw \<noteq> []"
    and "predict ctx (normalize_text (tables ctx) raw) = Inr cv"
    and "top_of cv = Some (l, p)"
  shows "(l, p) \<in> set cv \<and> (\<forall>e \<in> set cv. snd e \<le> p) \<and>
         (0.7 \<le> p \<longrightarrow>
            classify ctx raw =
              Inr \<lparr> category = l, confidence = p, strategy = ML_CLASSIFIER,
                    trace = [RuleConsulted (evaluate (rules ctx) raw (normalize_text (tables ctx) raw)),
                             ClassifierConsulted cv] \<rparr>) \<and>
         (p < 0.7 \<longrightarrow>
            classify ctx raw =
              embedding_rescue ctx (normalize_text (tables ctx) raw)
                [RuleConsulted (evaluate (rules ctx) raw (normalize_text (tables ctx) raw)),
                 ClassifierConsulted cv] l p)"
proof -
  have "classify ctx raw =
      classifier_check ctx (normalize_text (tables ctx) raw)
        [RuleConsulted (evaluate (rules ctx) raw (normalize_text (tables ctx) raw))]"
    using assms(1,2) by (simp add: classify_no_rule HIGH_RULE_THRESHOLD_def after_rules_def)
  then show ?thesis
    using assms(3,4) top_is_arg_max [OF assms(4)]
    by (simp add: classifier_check_def ML_ACCEPT_THRESHOLD_def Let_def)
qed

text \<open>
  A classifier whose top probability is exactly 0.7 is accepted. The scenario of section
  8, top probability 0.55, goes on to the embedding rescue, which answers HYBRID.
\<close>

theorem classifier_threshold_inclusive_witness:
  "classify threshold_context ''fill up at the pump'' =
     Inr \<lparr> category = ''Fuel'', confidence = 0.7, strategy = ML_CLASSIFIER,
           trace = [RuleConsulted null_verdict,
                    ClassifierConsulted [(''Fuel'', 0.7), (''Food'', 0.3)]] \<rparr> \<and>
   classify sample_context ''fill up at the pump'' =
     embedding_rescue sample_context ''fill up at the pump''
       [RuleConsulted null_verdict,
        ClassifierConsulted [(''Food'', 0.2), (''Fuel'', 0.55), (''Bills'', 0.25)]] ''Fuel'' 0.55 \<and>
   classify sample_context ''fill up at the pump'' =
     Inr \<lparr> category = ''Fuel'', confidence = 0.675, strategy = HYBRID,
           trace = [RuleConsulted null_verdict,
                    ClassifierConsulted [(''Food'', 0.2), (''Fuel'', 0.55), (''Bills'', 0.25)],
                    CentroidConsulted ''Fuel'' 0.8] \<rparr>"
proof -
  let ?raw = "''fill up at the pump''"
  have n: "normalize_text (tables threshold_context) ?raw = ?raw"
      "normalize_text (tables sample_context) ?raw = ?raw"
    by code_simp+
  have v: "evaluate (rules threshold_context) ?raw ?raw = null_verdict"
      "evaluate (rules sample_context) ?raw ?raw = null_verdict"
    by code_simp+
  have h1: "rv_confidence (evaluate (rules threshold_context) ?raw
      (normalize_text (tables threshold_context) ?raw)) < 0.9"
    by code_simp
  have h2: "normalize_text (tables threshold_context) ?raw \<noteq> []" by code_simp
  have h3: "predict threshold_context (normalize_text (tables threshold_context) ?raw) =
      Inr [(''Fuel'', 0.7), (''Food'', 0.3)]"
    by (simp add: threshold_context_def)
  have h4: "top_of [(''Fuel'', 0.7), (''Food'', 0.3)] = Some (''Fuel'', 0.7)" by code_simp
  from classifier_threshold_inclusive [OF h1 h2 h3 h4]
  have a: "classify threshold_context ?raw =
     Inr \<lparr> category = ''Fuel'', confidence = 0.7, strategy = ML_CLASSIFIER,
           trace = [RuleConsulted null_verdict,
                    ClassifierConsulted [(''Fuel'', 0.7), (''Food'', 0.3)]] \<rparr>"
    by (simp add: n v)
  have g1: "rv_confidence (evaluate (rules sample_context) ?raw
      (normalize_text (tables sample_context) ?raw)) < 0.9"
    by code_simp
  have g2: "normalize_text (tables sample_context) ?raw \<noteq> []" by code_simp
  have g3: "predict sample_context (normalize_text (tables sample_context) ?raw) =
      Inr [(''Food'', 0.2), (''Fuel'', 0.55), (''Bills'', 0.25)]"
    by (simp add: sample_context_def)
  have g4: "top_of [(''Food'', 0.2), (''Fuel'', 0.55), (''Bills'', 0.25)] = Some (''Fuel'', 0.55)"
    by code_simp
  from classifier_threshold_inclusive [OF g1 g2 g3 g4]
  have b: "classify sample_context ?raw =
     embedding_rescue sample_context ?raw
       [RuleConsulted null_verdict,
        ClassifierConsulted [(''Food'', 0.2), (''Fuel'', 0.55), (''Bills'', 0.25)]] ''Fuel'' 0.55"
    by (simp add: n v)
  have c: "classify sample_context ?raw =
     Inr \<lparr> category = ''Fuel'', confidence = 0.675, strategy = HYBRID,
           trace = [RuleConsulted null_verdict,
                    ClassifierConsulted [(''Food'', 0.2), (''Fuel'', 0.55), (''Bills'', 0.25)],
                    CentroidConsulted ''Fuel'' 0.8] \<rparr>"
    by code_simp
  from a b c show ?thesis by blast
qed

end
